theory Spec2Isabelle
  imports Main "HOL-Library.AList" "HOL-Library.Word"
begin

section \<open>Data model of daemon/firewall/nftables/tables.go\<close>

text \<open>
  \<^verbatim>\<open>nftables.TableFamily\<close> is a byte. A table handle \<^verbatim>\<open>*nftables.Table\<close> is
  modelled by the value of the two fields the source sets and reads (\<^verbatim>\<open>Name\<close>,
  \<^verbatim>\<open>Family\<close>); \<^verbatim>\<open>nil\<close> is \<open>None\<close>. No function of the file mutates a table
  object after its construction.
\<close>

type_synonym TableFamily = "8 word"

record Table =
  Name :: string
  Family :: TableFamily

text \<open>A chain as \<^verbatim>\<open>ListChains\<close> returns it: its name and \<^verbatim>\<open>c.Table\<close>.\<close>

record Chain =
  ChainName :: string
  ChainTable :: Table

text \<open>A rule as \<^verbatim>\<open>GetRule\<close> returns it: the table and chain it sits in, and its handle.\<close>

record Rule =
  RuleTable :: Table
  RuleChain :: string
  Handle :: nat

datatype Msg = MsgAddTable Table | MsgDelTable Table

datatype error =
  NetlinkError
  | AddTableError string string TableFamily

text \<open>
  The connection \<^verbatim>\<open>n.conn\<close> of the external netlink library, together with the kernel
  it talks to. \<open>ktables\<close>, \<open>kchains\<close> and \<open>krules\<close> are the objects the kernel
  holds; \<open>messages\<close> is the batch staged and not yet flushed. The environment decides
  which calls fail: \<open>flushErr i\<close> says whether the \<open>i\<close>-th flush fails (\<open>flushed\<close>
  counts the flushes so far), \<open>listChainsErr\<close> whether listing chains fails, and
  \<open>getRuleErr t c\<close> whether listing the rules of chain \<open>c\<close> of table \<open>t\<close> fails.
\<close>

record Conn =
  ktables :: "Table list"
  kchains :: "Chain list"
  krules :: "Rule list"
  messages :: "Msg list"
  flushErr :: "nat \<Rightarrow> bool"
  flushed :: nat
  listChainsErr :: bool
  getRuleErr :: "Table \<Rightarrow> Chain \<Rightarrow> bool"

text \<open>
  The receiver \<^verbatim>\<open>n *Nft\<close>. The package-level registry \<^verbatim>\<open>sysTables\<close> and the log
  are process-wide state in the source; here they are passed along with the connection.
  The registry is a Go map from key to table handle: an association list whose keys are
  distinct, visited by \<^verbatim>\<open>range\<close> in the order of the list (Go leaves the order open,
  and every order is some list).
\<close>

record Nft =
  conn :: Conn
  sysTables :: "(string \<times> Table) list"
  logs :: "string list"

section \<open>The netlink connection\<close>

text \<open>\<^verbatim>\<open>conn.AddTable\<close> and \<^verbatim>\<open>conn.DelTable\<close> stage a message; nothing reaches the kernel.\<close>

definition conn_AddTable :: "Conn \<Rightarrow> Table \<Rightarrow> Conn" where
  "conn_AddTable cc t = cc\<lparr>messages := messages cc @ [MsgAddTable t]\<rparr>"

definition conn_DelTable :: "Conn \<Rightarrow> Table \<Rightarrow> Conn" where
  "conn_DelTable cc t = cc\<lparr>messages := messages cc @ [MsgDelTable t]\<rparr>"

text \<open>
  What the kernel does with one message of a batch that applies. Adding a table that
  exists attaches to it (spec 4.1); deleting a table removes it with its chains and rules.
\<close>

fun apply_msg :: "Conn \<Rightarrow> Msg \<Rightarrow> Conn" where
  "apply_msg cc (MsgAddTable t) =
     (if t \<in> set (ktables cc) then cc else cc\<lparr>ktables := ktables cc @ [t]\<rparr>)"
| "apply_msg cc (MsgDelTable t) =
     cc\<lparr>ktables := removeAll t (ktables cc),
        kchains := filter (\<lambda>c. ChainTable c \<noteq> t) (kchains cc),
        krules := filter (\<lambda>r. RuleTable r \<noteq> t) (krules cc)\<rparr>"

text \<open>
  \<^verbatim>\<open>conn.Flush\<close>: the staged batch applies as a whole or not at all, and is dropped
  either way (spec 4.1: a batch whose commit failed counts as never having happened).
\<close>

definition Flush :: "Conn \<Rightarrow> (error + unit) \<times> Conn" where
  "Flush cc =
     (if flushErr cc (flushed cc)
      then (Inl NetlinkError, cc\<lparr>messages := [], flushed := Suc (flushed cc)\<rparr>)
      else (Inr (), (foldl apply_msg cc (messages cc))
                      \<lparr>messages := [], flushed := Suc (flushed cc)\<rparr>))"

definition ListChains :: "Conn \<Rightarrow> error + Chain list" where
  "ListChains cc = (if listChainsErr cc then Inl NetlinkError else Inr (kchains cc))"

definition GetRule :: "Conn \<Rightarrow> Table \<Rightarrow> Chain \<Rightarrow> error + Rule list" where
  "GetRule cc t c =
     (if getRuleErr cc t c then Inl NetlinkError
      else Inr (filter (\<lambda>r. RuleTable r = t \<and> RuleChain r = ChainName c) (krules cc)))"

section \<open>Helpers of the package that tables.go calls\<close>

text \<open>
  Modelled from the spec: \<^verbatim>\<open>Commit\<close> is defined outside tables.go. Spec 4.1:
  \<^verbatim>\<open>commit()\<close> atomically applies the batch of staged operations and reports success or
  failure. The source reads its result as a boolean, true on success.
\<close>

definition Commit :: "Nft \<Rightarrow> bool \<times> Nft" where
  "Commit n = (case Flush (conn n) of
                 (Inl err, cc) \<Rightarrow> (False, n\<lparr>conn := cc\<rparr>)
               | (Inr u, cc) \<Rightarrow> (True, n\<lparr>conn := cc\<rparr>))"

text \<open>
  Modelled from the spec: the registry type behind \<^verbatim>\<open>sysTables\<close> (its \<^verbatim>\<open>Add\<close>,
  \<^verbatim>\<open>Get\<close>, \<^verbatim>\<open>Del\<close> and \<^verbatim>\<open>List\<close>) is defined outside tables.go. Spec 4.2: a
  mapping from the key of (name, family) to the table, one entry per key.
\<close>

definition sysTables_Add :: "(string \<times> Table) list \<Rightarrow> string \<Rightarrow> Table \<Rightarrow> (string \<times> Table) list" where
  "sysTables_Add reg k tbl = AList.update k tbl reg"

definition sysTables_Get :: "(string \<times> Table) list \<Rightarrow> string \<Rightarrow> Table option" where
  "sysTables_Get reg k = map_of reg k"

definition sysTables_Del :: "(string \<times> Table) list \<Rightarrow> string \<Rightarrow> (string \<times> Table) list" where
  "sysTables_Del reg k = AList.delete k reg"

definition sysTables_List :: "(string \<times> Table) list \<Rightarrow> (string \<times> Table) list" where
  "sysTables_List reg = reg"

text \<open>
  Modelled from the spec: \<^verbatim>\<open>log.Warning\<close> belongs to the package daemon/log, outside
  tables.go. Spec 4.2: teardown logs on commit failure. The log grows by one line, the
  formatted message.
\<close>

definition log_Warning :: "Nft \<Rightarrow> string \<Rightarrow> Nft" where
  "log_Warning n msg = n\<lparr>logs := logs n @ [msg]\<rparr>"

text \<open>
  Modelled from the spec: the constants \<^verbatim>\<open>exprs.NFT_CHAIN_MANGLE\<close>,
  \<^verbatim>\<open>exprs.NFT_CHAIN_FILTER\<close> and \<^verbatim>\<open>exprs.NFT_FAMILY_INET\<close> are declared outside
  tables.go. Spec 4.2 and the comment above \<^verbatim>\<open>addSystemTables\<close>: the mangle and filter
  tables, inet family.
\<close>

definition NFT_CHAIN_MANGLE :: string where
  "NFT_CHAIN_MANGLE = ''mangle''"

definition NFT_CHAIN_FILTER :: string where
  "NFT_CHAIN_FILTER = ''filter''"

definition NFT_FAMILY_INET :: string where
  "NFT_FAMILY_INET = ''inet''"

section \<open>tables.go\<close>

text \<open>
  \<^verbatim>\<open>getTableKey\<close> is \<^verbatim>\<open>fmt.Sprint(name, "-", family)\<close>. Both callers in the file pass
  the family as a string, and \<^verbatim>\<open>Sprint\<close> puts no space next to a string operand.
\<close>

definition getTableKey :: "string \<Rightarrow> string \<Rightarrow> string" where
  "getTableKey name family = name @ ''-'' @ family"

text \<open>
  \<^verbatim>\<open>AddTable\<close>. \<^verbatim>\<open>getFamilyCode\<close> is defined outside tables.go and is a parameter.
  The Go result \<^verbatim>\<open>(tbl, nil)\<close> is \<open>Inr tbl\<close> and \<^verbatim>\<open>(nil, err)\<close> is \<open>Inl err\<close>.
\<close>

definition AddTable ::
  "(string \<Rightarrow> TableFamily) \<Rightarrow> Nft \<Rightarrow> string \<Rightarrow> string \<Rightarrow> (error + Table) \<times> Nft" where
  "AddTable getFamilyCode n name family =
     (let famCode = getFamilyCode family;
          tbl = \<lparr>Name = name, Family = famCode\<rparr>;
          n1 = n\<lparr>conn := conn_AddTable (conn n) tbl\<rparr>
      in case Commit n1 of (ok, n2) \<Rightarrow>
           if \<not> ok then (Inl (AddTableError name family famCode), n2)
           else let key = getTableKey name family
                in (Inr tbl, n2\<lparr>sysTables := sysTables_Add (sysTables n2) key tbl\<rparr>))"

definition getTable :: "Nft \<Rightarrow> string \<Rightarrow> string \<Rightarrow> Table option" where
  "getTable n name family = sysTables_Get (sysTables n) (getTableKey name family)"

text \<open>\<^verbatim>\<open>addInterceptionTables\<close>: the Go result \<^verbatim>\<open>nil\<close> is \<open>None\<close>.\<close>

definition addInterceptionTables :: "(string \<Rightarrow> TableFamily) \<Rightarrow> Nft \<Rightarrow> error option \<times> Nft" where
  "addInterceptionTables getFamilyCode n =
     (case AddTable getFamilyCode n NFT_CHAIN_MANGLE NFT_FAMILY_INET of
        (Inl err, n1) \<Rightarrow> (Some err, n1)
      | (Inr t1, n1) \<Rightarrow>
          (case AddTable getFamilyCode n1 NFT_CHAIN_FILTER NFT_FAMILY_INET of
             (Inl err, n2) \<Rightarrow> (Some err, n2)
           | (Inr t2, n2) \<Rightarrow> (None, n2)))"

text \<open>\<^verbatim>\<open>addSystemTables\<close> drops both results of \<^verbatim>\<open>AddTable\<close>.\<close>

definition addSystemTables :: "(string \<Rightarrow> TableFamily) \<Rightarrow> Nft \<Rightarrow> Nft" where
  "addSystemTables getFamilyCode n =
     (let n1 = snd (AddTable getFamilyCode n NFT_CHAIN_MANGLE NFT_FAMILY_INET)
      in snd (AddTable getFamilyCode n1 NFT_CHAIN_FILTER NFT_FAMILY_INET))"

text \<open>
  The loop of \<^verbatim>\<open>nonSystemRules\<close> over the listed chains, with the counter \<open>t\<close>.
  The counter is a Go \<^verbatim>\<open>int\<close> (64 bits); it is an unbounded integer here, the number
  of rules of a host being far below \<open>2 ^ 63\<close>.
\<close>

fun nonSystemRules_loop :: "Nft \<Rightarrow> Table \<Rightarrow> Chain list \<Rightarrow> int \<Rightarrow> int" where
  "nonSystemRules_loop n tbl [] t = t"
| "nonSystemRules_loop n tbl (c # cs) t =
     (if Name tbl \<noteq> Name (ChainTable c) \<and> Family tbl \<noteq> Family (ChainTable c)
      then nonSystemRules_loop n tbl cs t
      else (case GetRule (conn n) (ChainTable c) c of
              Inl err \<Rightarrow> - 1
            | Inr rs \<Rightarrow> nonSystemRules_loop n tbl cs (t + int (length rs))))"

definition nonSystemRules :: "Nft \<Rightarrow> Table \<Rightarrow> int" where
  "nonSystemRules n tbl =
     (case ListChains (conn n) of
        Inl err \<Rightarrow> - 1
      | Inr chs \<Rightarrow> nonSystemRules_loop n tbl chs 0)"

text \<open>
  The body of the loop of \<^verbatim>\<open>delSystemTables\<close> for one entry \<open>(k, tbl)\<close>, and the loop.
  The body deletes no key but the one it visits, so ranging over the map while deleting
  visits the entries the map had when the loop began.
\<close>

definition delSystemTables_body :: "Nft \<Rightarrow> string \<times> Table \<Rightarrow> Nft" where
  "delSystemTables_body n e =
     (case e of (k, tbl) \<Rightarrow>
        if nonSystemRules n tbl \<noteq> 0 then n
        else (case Commit (n\<lparr>conn := conn_DelTable (conn n) tbl\<rparr>) of (ok, n') \<Rightarrow>
                if \<not> ok then log_Warning n' (''error deleting system table: '' @ k)
                else n'\<lparr>sysTables := sysTables_Del (sysTables n') k\<rparr>))"

definition delSystemTables :: "Nft \<Rightarrow> Nft" where
  "delSystemTables n = foldl delSystemTables_body n (sysTables_List (sysTables n))"

section \<open>What the specification says nonSystemRules counts\<close>

text \<open>
  Spec 4.2, \<^verbatim>\<open>countForeignRules\<close>: the rules under the table's (name, family) pair that
  do not originate from the daemon's own rule records. \<open>own\<close> tells the daemon's rules.
\<close>

definition countForeignRules_spec :: "(Rule \<Rightarrow> bool) \<Rightarrow> Nft \<Rightarrow> Table \<Rightarrow> int" where
  "countForeignRules_spec own n tbl =
     int (length (filter (\<lambda>r. Name (RuleTable r) = Name tbl \<and> Family (RuleTable r) = Family tbl
                               \<and> \<not> own r) (krules (conn n))))"

section \<open>Example hosts\<close>

text \<open>
  Concrete inputs on which the theorems below are evaluated. \<open>ex_familyCode\<close> is one
  possible \<^verbatim>\<open>getFamilyCode\<close>: the kernel's protocol numbers, inet by default.
\<close>

definition ex_familyCode :: "string \<Rightarrow> TableFamily" where
  "ex_familyCode family = (if family = ''ip'' then 2 else if family = ''ip6'' then 10 else 1)"

text \<open>
  Flush scripts: no flush fails, every flush fails, only the first, only the second.
\<close>

definition ex_flush_ok :: "nat \<Rightarrow> bool" where
  "ex_flush_ok i = False"

definition ex_flush_fails :: "nat \<Rightarrow> bool" where
  "ex_flush_fails i = True"

definition ex_first_flush_fails :: "nat \<Rightarrow> bool" where
  "ex_first_flush_fails i = (i = 0)"

definition ex_second_flush_fails :: "nat \<Rightarrow> bool" where
  "ex_second_flush_fails i = (i = 1)"

definition ex_no_error :: "Table \<Rightarrow> Chain \<Rightarrow> bool" where
  "ex_no_error t c = False"

definition ex_input_error :: "Table \<Rightarrow> Chain \<Rightarrow> bool" where
  "ex_input_error t c = (ChainName c = ''input'')"

text \<open>
  Tables and rules.
\<close>

definition ex_filter :: Table where
  "ex_filter = \<lparr>Name = ''filter'', Family = 1\<rparr>"

definition ex_mangle :: Table where
  "ex_mangle = \<lparr>Name = ''mangle'', Family = 1\<rparr>"

definition ex_filter_ip :: Table where
  "ex_filter_ip = \<lparr>Name = ''filter'', Family = 2\<rparr>"

definition ex_nat :: Table where
  "ex_nat = \<lparr>Name = ''nat'', Family = 1\<rparr>"

definition ex_nat_ip6 :: Table where
  "ex_nat_ip6 = \<lparr>Name = ''nat'', Family = 10\<rparr>"

definition ex_rule :: "Table \<Rightarrow> string \<Rightarrow> nat \<Rightarrow> Rule" where
  "ex_rule t c h = \<lparr>RuleTable = t, RuleChain = c, Handle = h\<rparr>"

definition ex_three_rules :: "Rule list" where
  "ex_three_rules = [ex_rule ex_filter ''input'' 4, ex_rule ex_filter ''input'' 5,
                     ex_rule ex_filter ''input'' 6]"

text \<open>
  A fresh daemon on a host without tables.
\<close>

definition ex_nft :: "(nat \<Rightarrow> bool) \<Rightarrow> Nft" where
  "ex_nft ferr =
     \<lparr>conn = \<lparr>ktables = [], kchains = [], krules = [], messages = [], flushErr = ferr,
               flushed = 0, listChainsErr = False, getRuleErr = ex_no_error\<rparr>,
      sysTables = [], logs = []\<rparr>"

text \<open>
  A daemon that registered the mangle and filter tables of the inet family, each with one
  chain, on a host holding the rules \<open>rs\<close>: without rules (\<open>ex_idle\<close>), with three
  rules in the filter table (\<open>ex_busy\<close>), without rules and with a first flush that
  fails (\<open>ex_stuck\<close>), and \<open>ex_busy\<close> with a failing enumeration of the chains
  (\<open>ex_unlistable\<close>) or of the rules of the chain input (\<open>ex_unreadable\<close>).
\<close>

definition ex_host :: "Rule list \<Rightarrow> (nat \<Rightarrow> bool) \<Rightarrow> Nft" where
  "ex_host rs ferr =
     \<lparr>conn = \<lparr>ktables = [ex_mangle, ex_filter],
               kchains = [\<lparr>ChainName = ''output'', ChainTable = ex_mangle\<rparr>,
                          \<lparr>ChainName = ''input'', ChainTable = ex_filter\<rparr>],
               krules = rs, messages = [], flushErr = ferr, flushed = 0,
               listChainsErr = False, getRuleErr = ex_no_error\<rparr>,
      sysTables = [(''mangle-inet'', ex_mangle), (''filter-inet'', ex_filter)],
      logs = []\<rparr>"

definition ex_idle :: Nft where "ex_idle = ex_host [] ex_flush_ok"

definition ex_busy :: Nft where "ex_busy = ex_host ex_three_rules ex_flush_ok"

definition ex_stuck :: Nft where "ex_stuck = ex_host [] ex_first_flush_fails"

definition ex_unlistable :: Nft where
  "ex_unlistable = ex_busy\<lparr>conn := (conn ex_busy)\<lparr>listChainsErr := True\<rparr>\<rparr>"

definition ex_unreadable :: Nft where
  "ex_unreadable = ex_busy\<lparr>conn := (conn ex_busy)\<lparr>getRuleErr := ex_input_error\<rparr>\<rparr>"

text \<open>
  A host that another firewall shares: the daemon registered filter/inet, which has no
  chain; the tables filter/ip, nat/inet and nat/ip6 hold two, one and four rules.
\<close>

definition ex_shared :: Nft where
  "ex_shared =
     \<lparr>conn = \<lparr>ktables = [ex_filter, ex_filter_ip, ex_nat, ex_nat_ip6],
               kchains = [\<lparr>ChainName = ''output'', ChainTable = ex_filter_ip\<rparr>,
                          \<lparr>ChainName = ''prerouting'', ChainTable = ex_nat\<rparr>,
                          \<lparr>ChainName = ''input'', ChainTable = ex_nat_ip6\<rparr>],
               krules = [ex_rule ex_filter_ip ''output'' 1, ex_rule ex_filter_ip ''output'' 2,
                         ex_rule ex_nat ''prerouting'' 3,
                         ex_rule ex_nat_ip6 ''input'' 4, ex_rule ex_nat_ip6 ''input'' 5,
                         ex_rule ex_nat_ip6 ''input'' 6, ex_rule ex_nat_ip6 ''input'' 7],
               messages = [], flushErr = ex_flush_ok, flushed = 0,
               listChainsErr = False, getRuleErr = ex_no_error\<rparr>,
      sysTables = [(''filter-inet'', ex_filter)],
      logs = []\<rparr>"

text \<open>
  A host whose only rule, handle 7 in the filter table, was added by the daemon:
  \<open>ex_own\<close> tells the daemon's rules on that host, \<open>ex_no_own\<close> says it has none.
\<close>

definition ex_no_own :: "Rule \<Rightarrow> bool" where
  "ex_no_own r = False"

definition ex_own :: "Rule \<Rightarrow> bool" where
  "ex_own r = (Handle r = 7)"

definition ex_own_host :: Nft where
  "ex_own_host = ex_host [ex_rule ex_filter ''input'' 7] ex_flush_ok"

lemmas ex_defs = ex_familyCode_def ex_flush_ok_def ex_flush_fails_def ex_first_flush_fails_def
  ex_second_flush_fails_def ex_no_error_def ex_input_error_def ex_filter_def ex_mangle_def
  ex_filter_ip_def ex_nat_def ex_nat_ip6_def ex_rule_def ex_three_rules_def ex_nft_def
  ex_host_def ex_idle_def ex_busy_def ex_stuck_def ex_unlistable_def ex_unreadable_def
  ex_shared_def ex_no_own_def ex_own_def ex_own_host_def

lemmas src_defs = delSystemTables_def delSystemTables_body_def nonSystemRules_def ListChains_def
  GetRule_def Commit_def Flush_def conn_DelTable_def conn_AddTable_def log_Warning_def
  sysTables_List_def sysTables_Del_def sysTables_Get_def sysTables_Add_def getTable_def
  getTableKey_def AddTable_def

section \<open>Flushing and committing\<close>

lemma apply_msg_messages:
  "apply_msg (cc\<lparr>messages := ms'\<rparr>) m = (apply_msg cc m)\<lparr>messages := ms'\<rparr>"
  by (cases m) simp_all

lemma foldl_apply_msg_messages:
  "foldl apply_msg (cc\<lparr>messages := ms'\<rparr>) ms = (foldl apply_msg cc ms)\<lparr>messages := ms'\<rparr>"
  by (induction ms arbitrary: cc) (simp_all add: apply_msg_messages)

lemma apply_msg_flushErr: "flushErr (apply_msg cc m) = flushErr cc"
  by (cases m) simp_all

lemma foldl_apply_msg_flushErr: "flushErr (foldl apply_msg cc ms) = flushErr cc"
  by (induction ms arbitrary: cc) (simp_all add: apply_msg_flushErr)

lemma apply_msg_distinct: "distinct (ktables cc) \<Longrightarrow> distinct (ktables (apply_msg cc m))"
  by (cases m) (simp_all add: distinct_removeAll)

lemma foldl_apply_msg_distinct:
  "distinct (ktables cc) \<Longrightarrow> distinct (ktables (foldl apply_msg cc ms))"
  by (induction ms arbitrary: cc) (simp_all add: apply_msg_distinct)

lemma apply_msg_AddTable_mem: "t \<in> set (ktables (apply_msg cc (MsgAddTable t)))"
  by simp

lemma Commit_eq:
  "Commit n = (\<not> flushErr (conn n) (flushed (conn n)), n\<lparr>conn := snd (Flush (conn n))\<rparr>)"
  by (simp add: Commit_def Flush_def)

section \<open>The registry\<close>

lemma Get_Add_same: "sysTables_Get (sysTables_Add reg k v) k = Some v"
  by (simp add: sysTables_Get_def sysTables_Add_def update_conv')

lemma Get_Add_other: "k' \<noteq> k \<Longrightarrow> sysTables_Get (sysTables_Add reg k v) k' = sysTables_Get reg k'"
  by (simp add: sysTables_Get_def sysTables_Add_def update_conv')

lemma Add_Add_same: "sysTables_Add (sysTables_Add reg k v) k v = sysTables_Add reg k v"
  by (simp add: sysTables_Add_def update_triv update_conv')

section \<open>AddTable\<close>

lemma AddTable_fail:
  "flushErr (conn n) (flushed (conn n)) \<Longrightarrow>
   AddTable fc n name family =
     (Inl (AddTableError name family (fc family)),
      n\<lparr>conn := (conn n)\<lparr>messages := [], flushed := Suc (flushed (conn n))\<rparr>\<rparr>)"
  by (simp add: AddTable_def Commit_eq Flush_def conn_AddTable_def Let_def)

lemma AddTable_ok:
  "\<not> flushErr (conn n) (flushed (conn n)) \<Longrightarrow>
   AddTable fc n name family =
     (Inr \<lparr>Name = name, Family = fc family\<rparr>,
      n\<lparr>conn := (apply_msg (foldl apply_msg (conn n) (messages (conn n)))
                    (MsgAddTable \<lparr>Name = name, Family = fc family\<rparr>))
                  \<lparr>messages := [], flushed := Suc (flushed (conn n))\<rparr>,
        sysTables := sysTables_Add (sysTables n) (getTableKey name family)
                       \<lparr>Name = name, Family = fc family\<rparr>\<rparr>)"
  by (simp add: AddTable_def Commit_eq Flush_def conn_AddTable_def Let_def
      foldl_apply_msg_messages apply_msg_messages)

text \<open>
  Claim C9. When the commit fails, \<open>AddTable\<close> returns an error and no handle, and
  the registry is as it was; when the commit succeeds, it returns a handle and no error,
  and the registry holds that handle under the key of (name, family).
\<close>

theorem AddTable_registry_atomic:
  "(flushErr (conn n) (flushed (conn n)) \<longrightarrow>
      (\<exists>err n'. AddTable fc n name family = (Inl err, n') \<and> sysTables n' = sysTables n))
   \<and> (\<not> flushErr (conn n) (flushed (conn n)) \<longrightarrow>
      (\<exists>tbl n'. AddTable fc n name family = (Inr tbl, n')
          \<and> sysTables n' = sysTables_Add (sysTables n) (getTableKey name family) tbl
          \<and> getTable n' name family = Some tbl))"
  by (simp add: AddTable_fail AddTable_ok getTable_def Get_Add_same)

theorem AddTable_registry_atomic_witness:
  "(flushErr (conn (ex_nft ex_flush_fails)) (flushed (conn (ex_nft ex_flush_fails))) \<and>
      (\<exists>err n'. AddTable ex_familyCode (ex_nft ex_flush_fails) ''filter'' ''inet'' = (Inl err, n')
          \<and> sysTables n' = sysTables (ex_nft ex_flush_fails)))
   \<and> (\<not> flushErr (conn (ex_nft ex_flush_ok)) (flushed (conn (ex_nft ex_flush_ok))) \<and>
      (\<exists>tbl n'. AddTable ex_familyCode (ex_nft ex_flush_ok) ''filter'' ''inet'' = (Inr tbl, n')
          \<and> sysTables n' = sysTables_Add (sysTables (ex_nft ex_flush_ok))
                             (getTableKey ''filter'' ''inet'') tbl
          \<and> getTable n' ''filter'' ''inet'' = Some tbl))"
proof -
  have f: "flushErr (conn (ex_nft ex_flush_fails)) (flushed (conn (ex_nft ex_flush_fails)))"
    by (simp add: ex_defs)
  have s: "\<not> flushErr (conn (ex_nft ex_flush_ok)) (flushed (conn (ex_nft ex_flush_ok)))"
    by (simp add: ex_defs)
  show ?thesis
    using f s
      AddTable_registry_atomic [of "ex_nft ex_flush_fails" ex_familyCode "''filter''" "''inet''"]
      AddTable_registry_atomic [of "ex_nft ex_flush_ok" ex_familyCode "''filter''" "''inet''"]
    by blast
qed

text \<open>
  Claim C5, as amended. When the commits of both calls succeed, two calls of
  \<open>AddTable\<close> with the same name and family return the same handle, the second call
  leaves the registry and the tables of the kernel as the first call left them, the
  registry holds the handle under the key, and the kernel holds the table once if its
  tables were distinct before.
\<close>

theorem AddTable_twice_when_commits_succeed:
  assumes ok1: "\<not> flushErr (conn n) (flushed (conn n))"
    and ok2: "\<not> flushErr (conn n) (Suc (flushed (conn n)))"
    and a1: "AddTable fc n name family = (r1, n1)"
    and a2: "AddTable fc n1 name family = (r2, n2)"
  shows "r1 = Inr \<lparr>Name = name, Family = fc family\<rparr> \<and> r2 = r1
       \<and> getTable n2 name family = Some \<lparr>Name = name, Family = fc family\<rparr>
       \<and> sysTables n2 = sysTables n1
       \<and> ktables (conn n2) = ktables (conn n1)
       \<and> \<lparr>Name = name, Family = fc family\<rparr> \<in> set (ktables (conn n2))
       \<and> (distinct (ktables (conn n)) \<longrightarrow> distinct (ktables (conn n2)))"
proof -
  let ?t = "\<lparr>Name = name, Family = fc family\<rparr>"
  let ?cc = "apply_msg (foldl apply_msg (conn n) (messages (conn n))) (MsgAddTable ?t)"
  have r1: "r1 = Inr ?t"
    and n1: "n1 = n\<lparr>conn := ?cc\<lparr>messages := [], flushed := Suc (flushed (conn n))\<rparr>,
                     sysTables := sysTables_Add (sysTables n) (getTableKey name family) ?t\<rparr>"
    using a1 AddTable_ok [OF ok1, of fc name family] by simp_all
  have mem: "?t \<in> set (ktables ?cc)"
    by (rule apply_msg_AddTable_mem)
  have ferr: "flushErr ?cc = flushErr (conn n)"
    by (simp only: apply_msg_flushErr foldl_apply_msg_flushErr)
  have ok2': "\<not> flushErr (conn n1) (flushed (conn n1))"
    using ok2 ferr by (simp add: n1)
  have same: "apply_msg (?cc\<lparr>messages := [], flushed := Suc (flushed (conn n))\<rparr>) (MsgAddTable ?t)
                = ?cc\<lparr>messages := [], flushed := Suc (flushed (conn n))\<rparr>"
    using mem by simp
  have r2: "r2 = Inr ?t"
    and n2: "n2 = n1\<lparr>conn := (conn n1)\<lparr>flushed := Suc (flushed (conn n1))\<rparr>\<rparr>"
    using a2 AddTable_ok [OF ok2', of fc name family] same
    by (simp_all add: n1 Add_Add_same)
  have d: "distinct (ktables (conn n2))" if "distinct (ktables (conn n))"
    using that by (simp add: n2 n1 apply_msg_distinct foldl_apply_msg_distinct)
  show ?thesis
    using r1 r2 mem d by (simp add: n2 n1 getTable_def Get_Add_same)
qed

theorem AddTable_twice_when_commits_succeed_witness:
  "\<not> flushErr (conn (ex_nft ex_flush_ok)) (flushed (conn (ex_nft ex_flush_ok)))
   \<and> \<not> flushErr (conn (ex_nft ex_flush_ok)) (Suc (flushed (conn (ex_nft ex_flush_ok))))
   \<and> fst (AddTable ex_familyCode (ex_nft ex_flush_ok) ''filter'' ''inet'') = Inr ex_filter
   \<and> fst (AddTable ex_familyCode
            (snd (AddTable ex_familyCode (ex_nft ex_flush_ok) ''filter'' ''inet''))
            ''filter'' ''inet'') = Inr ex_filter
   \<and> ktables (conn (snd (AddTable ex_familyCode
            (snd (AddTable ex_familyCode (ex_nft ex_flush_ok) ''filter'' ''inet''))
            ''filter'' ''inet''))) = [ex_filter]"
proof -
  have ok1: "\<not> flushErr (conn (ex_nft ex_flush_ok)) (flushed (conn (ex_nft ex_flush_ok)))"
    by (simp add: ex_defs)
  have ok2: "\<not> flushErr (conn (ex_nft ex_flush_ok)) (Suc (flushed (conn (ex_nft ex_flush_ok))))"
    by (simp add: ex_defs)
  have k1: "ktables (conn (snd (AddTable ex_familyCode (ex_nft ex_flush_ok) ''filter'' ''inet'')))
              = [ex_filter]"
    by (simp add: ex_defs src_defs Let_def)
  have t: "\<lparr>Name = ''filter'', Family = ex_familyCode ''inet''\<rparr> = ex_filter"
    by (simp add: ex_defs)
  have a1: "AddTable ex_familyCode (ex_nft ex_flush_ok) ''filter'' ''inet''
      = (fst (AddTable ex_familyCode (ex_nft ex_flush_ok) ''filter'' ''inet''),
         snd (AddTable ex_familyCode (ex_nft ex_flush_ok) ''filter'' ''inet''))"
    by simp
  have a2: "AddTable ex_familyCode
              (snd (AddTable ex_familyCode (ex_nft ex_flush_ok) ''filter'' ''inet''))
              ''filter'' ''inet''
      = (fst (AddTable ex_familyCode
                (snd (AddTable ex_familyCode (ex_nft ex_flush_ok) ''filter'' ''inet''))
                ''filter'' ''inet''),
         snd (AddTable ex_familyCode
                (snd (AddTable ex_familyCode (ex_nft ex_flush_ok) ''filter'' ''inet''))
                ''filter'' ''inet''))"
    by simp
  show ?thesis
    using AddTable_twice_when_commits_succeed [OF ok1 ok2 a1 a2] ok1 ok2 k1 t
    by simp
qed

text \<open>
  Claim C5 as stated fails: on a host whose second flush fails, the first call returns
  the handle of filter/inet, the table is then in the kernel and in the registry, and the
  second call with the same arguments returns an error and no handle.
\<close>

theorem AddTable_twice_counterexample:
  "fst (AddTable ex_familyCode (ex_nft ex_second_flush_fails) ''filter'' ''inet'') = Inr ex_filter
   \<and> ex_filter \<in> set (ktables (conn (snd
         (AddTable ex_familyCode (ex_nft ex_second_flush_fails) ''filter'' ''inet''))))
   \<and> getTable (snd (AddTable ex_familyCode (ex_nft ex_second_flush_fails) ''filter'' ''inet''))
        ''filter'' ''inet'' = Some ex_filter
   \<and> fst (AddTable ex_familyCode
            (snd (AddTable ex_familyCode (ex_nft ex_second_flush_fails) ''filter'' ''inet''))
            ''filter'' ''inet'') = Inl (AddTableError ''filter'' ''inet'' 1)"
  by (simp add: ex_defs src_defs Let_def)

text \<open>
  Claim C8. \<open>addInterceptionTables\<close> adds the mangle table and then the filter
  table, both of the inet family. If the commit of the first fails it returns that error
  after this one commit, the registry unchanged; if the commit of the second fails it
  returns that error; if both succeed it returns no error, and both tables are in the
  kernel and in the registry.
\<close>

theorem addInterceptionTables_propagates:
  "(flushErr (conn n) (flushed (conn n)) \<longrightarrow>
      addInterceptionTables fc n = (Some (AddTableError ''mangle'' ''inet'' (fc ''inet'')),
                                    snd (AddTable fc n ''mangle'' ''inet''))
      \<and> flushed (conn (snd (addInterceptionTables fc n))) = Suc (flushed (conn n))
      \<and> sysTables (snd (addInterceptionTables fc n)) = sysTables n)
   \<and> (\<not> flushErr (conn n) (flushed (conn n)) \<and> flushErr (conn n) (Suc (flushed (conn n))) \<longrightarrow>
      addInterceptionTables fc n = (Some (AddTableError ''filter'' ''inet'' (fc ''inet'')),
          snd (AddTable fc (snd (AddTable fc n ''mangle'' ''inet'')) ''filter'' ''inet'')))
   \<and> (\<not> flushErr (conn n) (flushed (conn n)) \<and> \<not> flushErr (conn n) (Suc (flushed (conn n))) \<longrightarrow>
      fst (addInterceptionTables fc n) = None
      \<and> getTable (snd (addInterceptionTables fc n)) ''mangle'' ''inet''
            = Some \<lparr>Name = ''mangle'', Family = fc ''inet''\<rparr>
      \<and> getTable (snd (addInterceptionTables fc n)) ''filter'' ''inet''
            = Some \<lparr>Name = ''filter'', Family = fc ''inet''\<rparr>
      \<and> \<lparr>Name = ''mangle'', Family = fc ''inet''\<rparr>
            \<in> set (ktables (conn (snd (addInterceptionTables fc n))))
      \<and> \<lparr>Name = ''filter'', Family = fc ''inet''\<rparr>
            \<in> set (ktables (conn (snd (addInterceptionTables fc n)))))"
proof (intro conjI impI)
  let ?m = "\<lparr>Name = ''mangle'', Family = fc ''inet''\<rparr>"
  let ?f = "\<lparr>Name = ''filter'', Family = fc ''inet''\<rparr>"
  let ?cc = "apply_msg (foldl apply_msg (conn n) (messages (conn n))) (MsgAddTable ?m)"
  let ?n1 = "n\<lparr>conn := ?cc\<lparr>messages := [], flushed := Suc (flushed (conn n))\<rparr>,
               sysTables := sysTables_Add (sysTables n) (getTableKey ''mangle'' ''inet'') ?m\<rparr>"
  {
    assume f: "flushErr (conn n) (flushed (conn n))"
    show "addInterceptionTables fc n = (Some (AddTableError ''mangle'' ''inet'' (fc ''inet'')),
                                    snd (AddTable fc n ''mangle'' ''inet''))"
      using f by (simp add: addInterceptionTables_def AddTable_fail NFT_CHAIN_MANGLE_def NFT_FAMILY_INET_def)
    show "flushed (conn (snd (addInterceptionTables fc n))) = Suc (flushed (conn n))"
      using f by (simp add: addInterceptionTables_def AddTable_fail NFT_CHAIN_MANGLE_def NFT_FAMILY_INET_def)
    show "sysTables (snd (addInterceptionTables fc n)) = sysTables n"
      using f by (simp add: addInterceptionTables_def AddTable_fail NFT_CHAIN_MANGLE_def NFT_FAMILY_INET_def)
  }
  {
    assume a: "\<not> flushErr (conn n) (flushed (conn n)) \<and> flushErr (conn n) (Suc (flushed (conn n)))"
    then have a1: "AddTable fc n ''mangle'' ''inet'' = (Inr ?m, ?n1)"
      by (simp add: AddTable_ok)
    have "flushErr (conn ?n1) (flushed (conn ?n1))"
      using a by (simp add: apply_msg_flushErr foldl_apply_msg_flushErr del: apply_msg.simps)
    then have a2: "AddTable fc ?n1 ''filter'' ''inet''
        = (Inl (AddTableError ''filter'' ''inet'' (fc ''inet'')),
           ?n1\<lparr>conn := (conn ?n1)\<lparr>messages := [], flushed := Suc (flushed (conn ?n1))\<rparr>\<rparr>)"
      by (rule AddTable_fail)
    show "addInterceptionTables fc n = (Some (AddTableError ''filter'' ''inet'' (fc ''inet'')),
          snd (AddTable fc (snd (AddTable fc n ''mangle'' ''inet'')) ''filter'' ''inet''))"
      by (simp add: addInterceptionTables_def a1 a2 NFT_CHAIN_MANGLE_def NFT_CHAIN_FILTER_def
          NFT_FAMILY_INET_def del: apply_msg.simps)
  }
  {
    assume a: "\<not> flushErr (conn n) (flushed (conn n)) \<and> \<not> flushErr (conn n) (Suc (flushed (conn n)))"
    then have a1: "AddTable fc n ''mangle'' ''inet'' = (Inr ?m, ?n1)"
      by (simp add: AddTable_ok)
    have ok2: "\<not> flushErr (conn ?n1) (flushed (conn ?n1))"
      using a by (simp add: apply_msg_flushErr foldl_apply_msg_flushErr del: apply_msg.simps)
    let ?n2 = "?n1\<lparr>conn := (apply_msg (foldl apply_msg (conn ?n1) (messages (conn ?n1)))
                    (MsgAddTable ?f))
                  \<lparr>messages := [], flushed := Suc (flushed (conn ?n1))\<rparr>,
        sysTables := sysTables_Add (sysTables ?n1) (getTableKey ''filter'' ''inet'') ?f\<rparr>"
    have a2: "AddTable fc ?n1 ''filter'' ''inet'' = (Inr ?f, ?n2)"
      by (rule AddTable_ok [OF ok2])
    have res: "addInterceptionTables fc n = (None, ?n2)"
      by (simp add: addInterceptionTables_def a1 a2 NFT_CHAIN_MANGLE_def NFT_CHAIN_FILTER_def
          NFT_FAMILY_INET_def del: apply_msg.simps)
    show "fst (addInterceptionTables fc n) = None"
      by (simp add: res)
    show "getTable (snd (addInterceptionTables fc n)) ''mangle'' ''inet'' = Some ?m"
      by (simp add: res getTable_def Get_Add_same Get_Add_other getTableKey_def del: apply_msg.simps)
    show "getTable (snd (addInterceptionTables fc n)) ''filter'' ''inet'' = Some ?f"
      by (simp add: res getTable_def Get_Add_same del: apply_msg.simps)
    have "?m \<in> set (ktables ?cc)"
      by (rule apply_msg_AddTable_mem)
    then show "?m \<in> set (ktables (conn (snd (addInterceptionTables fc n))))"
      by (simp add: res apply_msg_messages)
    show "?f \<in> set (ktables (conn (snd (addInterceptionTables fc n))))"
      by (simp add: res)
  }
qed

theorem addInterceptionTables_propagates_witness:
  "flushErr (conn (ex_nft ex_flush_fails)) (flushed (conn (ex_nft ex_flush_fails)))
   \<and> fst (addInterceptionTables ex_familyCode (ex_nft ex_flush_fails))
        = Some (AddTableError ''mangle'' ''inet'' 1)
   \<and> flushed (conn (snd (addInterceptionTables ex_familyCode (ex_nft ex_flush_fails)))) = Suc 0
   \<and> \<not> flushErr (conn (ex_nft ex_second_flush_fails)) (flushed (conn (ex_nft ex_second_flush_fails)))
   \<and> flushErr (conn (ex_nft ex_second_flush_fails)) (Suc (flushed (conn (ex_nft ex_second_flush_fails))))
   \<and> fst (addInterceptionTables ex_familyCode (ex_nft ex_second_flush_fails))
        = Some (AddTableError ''filter'' ''inet'' 1)
   \<and> \<not> flushErr (conn (ex_nft ex_flush_ok)) (flushed (conn (ex_nft ex_flush_ok)))
   \<and> \<not> flushErr (conn (ex_nft ex_flush_ok)) (Suc (flushed (conn (ex_nft ex_flush_ok))))
   \<and> fst (addInterceptionTables ex_familyCode (ex_nft ex_flush_ok)) = None
   \<and> getTable (snd (addInterceptionTables ex_familyCode (ex_nft ex_flush_ok))) ''mangle'' ''inet''
        = Some ex_mangle
   \<and> getTable (snd (addInterceptionTables ex_familyCode (ex_nft ex_flush_ok))) ''filter'' ''inet''
        = Some ex_filter"
proof -
  have f: "flushErr (conn (ex_nft ex_flush_fails)) (flushed (conn (ex_nft ex_flush_fails)))"
    by (simp add: ex_defs)
  have s: "\<not> flushErr (conn (ex_nft ex_second_flush_fails)) (flushed (conn (ex_nft ex_second_flush_fails)))
      \<and> flushErr (conn (ex_nft ex_second_flush_fails)) (Suc (flushed (conn (ex_nft ex_second_flush_fails))))"
    by (simp add: ex_defs)
  have k: "\<not> flushErr (conn (ex_nft ex_flush_ok)) (flushed (conn (ex_nft ex_flush_ok)))
      \<and> \<not> flushErr (conn (ex_nft ex_flush_ok)) (Suc (flushed (conn (ex_nft ex_flush_ok))))"
    by (simp add: ex_defs)
  have c: "ex_familyCode ''inet'' = 1" "flushed (conn (ex_nft ex_flush_fails)) = 0"
    "ex_mangle = \<lparr>Name = ''mangle'', Family = 1\<rparr>" "ex_filter = \<lparr>Name = ''filter'', Family = 1\<rparr>"
    by (simp_all add: ex_defs)
  note t1 = addInterceptionTables_propagates [of "ex_nft ex_flush_fails" ex_familyCode,
      THEN conjunct1, rule_format, OF f]
  note t2 = addInterceptionTables_propagates [of "ex_nft ex_second_flush_fails" ex_familyCode,
      THEN conjunct2, THEN conjunct1, rule_format, OF s]
  note t3 = addInterceptionTables_propagates [of "ex_nft ex_flush_ok" ex_familyCode,
      THEN conjunct2, THEN conjunct2, rule_format, OF k]
  have p1: "fst (addInterceptionTables ex_familyCode (ex_nft ex_flush_fails))
        = Some (AddTableError ''mangle'' ''inet'' 1)"
    using t1 [THEN conjunct1] by (simp add: c)
  have p2: "flushed (conn (snd (addInterceptionTables ex_familyCode (ex_nft ex_flush_fails)))) = Suc 0"
    using t1 [THEN conjunct2, THEN conjunct1] by (simp add: c)
  have p3: "fst (addInterceptionTables ex_familyCode (ex_nft ex_second_flush_fails))
        = Some (AddTableError ''filter'' ''inet'' 1)"
    using t2 by (simp add: c)
  have p4: "fst (addInterceptionTables ex_familyCode (ex_nft ex_flush_ok)) = None"
    using t3 [THEN conjunct1] .
  have p5: "getTable (snd (addInterceptionTables ex_familyCode (ex_nft ex_flush_ok))) ''mangle'' ''inet''
        = Some ex_mangle"
    using t3 [THEN conjunct2, THEN conjunct1] by (simp add: c)
  have p6: "getTable (snd (addInterceptionTables ex_familyCode (ex_nft ex_flush_ok))) ''filter'' ''inet''
        = Some ex_filter"
    using t3 [THEN conjunct2, THEN conjunct2, THEN conjunct1] by (simp add: c)
  show ?thesis
    using f s k p1 p2 p3 p4 p5 p6 by blast
qed

text \<open>
  Claim C10. \<open>getTableKey\<close> is not injective: the pairs (a-b, c) and (a, b-c) are
  distinct and have the same key, as have (name-x, y) and (name, x-y) in general;
  \<open>getTable\<close> answers the same for both pairs in every state, and after adding the first
  pair and then the second, both with a commit that succeeds, the lookup of the first
  pair returns the table of the second.
\<close>

theorem getTableKey_not_injective:
  "(''a-b'', ''c'') \<noteq> (''a'', ''b-c'')
   \<and> getTableKey ''a-b'' ''c'' = getTableKey ''a'' ''b-c''
   \<and> getTableKey (name @ ''-'' @ x) y = getTableKey name (x @ ''-'' @ y)
   \<and> getTable n ''a-b'' ''c'' = getTable n ''a'' ''b-c''
   \<and> (\<not> flushErr (conn n) (flushed (conn n)) \<and> \<not> flushErr (conn n) (Suc (flushed (conn n))) \<longrightarrow>
        getTable (snd (AddTable fc n ''a-b'' ''c'')) ''a-b'' ''c''
          = Some \<lparr>Name = ''a-b'', Family = fc ''c''\<rparr>
      \<and> getTable (snd (AddTable fc (snd (AddTable fc n ''a-b'' ''c'')) ''a'' ''b-c'')) ''a-b'' ''c''
          = Some \<lparr>Name = ''a'', Family = fc ''b-c''\<rparr>)"
proof (intro conjI impI)
  show "(''a-b'', ''c'') \<noteq> (''a'', ''b-c'')" by simp
  show k: "getTableKey ''a-b'' ''c'' = getTableKey ''a'' ''b-c''" by (simp add: getTableKey_def)
  show "getTableKey (name @ ''-'' @ x) y = getTableKey name (x @ ''-'' @ y)"
    by (simp add: getTableKey_def)
  show "getTable n ''a-b'' ''c'' = getTable n ''a'' ''b-c''"
    by (simp add: getTable_def k)
  assume a: "\<not> flushErr (conn n) (flushed (conn n)) \<and> \<not> flushErr (conn n) (Suc (flushed (conn n)))"
  let ?t = "\<lparr>Name = ''a-b'', Family = fc ''c''\<rparr>"
  let ?cc = "apply_msg (foldl apply_msg (conn n) (messages (conn n))) (MsgAddTable ?t)"
  let ?n1 = "n\<lparr>conn := ?cc\<lparr>messages := [], flushed := Suc (flushed (conn n))\<rparr>,
               sysTables := sysTables_Add (sysTables n) (getTableKey ''a-b'' ''c'') ?t\<rparr>"
  have a1: "AddTable fc n ''a-b'' ''c'' = (Inr ?t, ?n1)"
    using a by (simp add: AddTable_ok)
  show "getTable (snd (AddTable fc n ''a-b'' ''c'')) ''a-b'' ''c'' = Some ?t"
    by (simp add: a1 getTable_def Get_Add_same del: apply_msg.simps)
  have ok2: "\<not> flushErr (conn ?n1) (flushed (conn ?n1))"
    using a by (simp add: apply_msg_flushErr foldl_apply_msg_flushErr del: apply_msg.simps)
  show "getTable (snd (AddTable fc (snd (AddTable fc n ''a-b'' ''c'')) ''a'' ''b-c'')) ''a-b'' ''c''
          = Some \<lparr>Name = ''a'', Family = fc ''b-c''\<rparr>"
    unfolding a1 snd_conv AddTable_ok [OF ok2]
    by (simp add: getTable_def k Get_Add_same del: apply_msg.simps)
qed

theorem getTableKey_not_injective_witness:
  "\<not> flushErr (conn (ex_nft ex_flush_ok)) (flushed (conn (ex_nft ex_flush_ok)))
   \<and> \<not> flushErr (conn (ex_nft ex_flush_ok)) (Suc (flushed (conn (ex_nft ex_flush_ok))))
   \<and> getTable (snd (AddTable ex_familyCode (ex_nft ex_flush_ok) ''a-b'' ''c'')) ''a-b'' ''c''
          = Some \<lparr>Name = ''a-b'', Family = 1\<rparr>
   \<and> getTable (snd (AddTable ex_familyCode
                      (snd (AddTable ex_familyCode (ex_nft ex_flush_ok) ''a-b'' ''c''))
                      ''a'' ''b-c'')) ''a-b'' ''c''
          = Some \<lparr>Name = ''a'', Family = 1\<rparr>"
proof -
  have k: "\<not> flushErr (conn (ex_nft ex_flush_ok)) (flushed (conn (ex_nft ex_flush_ok)))
      \<and> \<not> flushErr (conn (ex_nft ex_flush_ok)) (Suc (flushed (conn (ex_nft ex_flush_ok))))"
    by (simp add: ex_defs)
  have c: "ex_familyCode ''c'' = 1" "ex_familyCode ''b-c'' = 1"
    by (simp_all add: ex_defs)
  show ?thesis
    using getTableKey_not_injective [where n = "ex_nft ex_flush_ok" and fc = ex_familyCode] k
    unfolding c by blast
qed

section \<open>nonSystemRules\<close>

lemma nonSystemRules_loop_sum:
  "\<forall>c\<in>set cs. (Name tbl = Name (ChainTable c) \<or> Family tbl = Family (ChainTable c))
       \<longrightarrow> \<not> isl (GetRule (conn n) (ChainTable c) c) \<Longrightarrow>
   nonSystemRules_loop n tbl cs t =
     t + (\<Sum>c\<leftarrow>filter (\<lambda>c. Name tbl = Name (ChainTable c) \<or> Family tbl = Family (ChainTable c)) cs.
            int (length (projr (GetRule (conn n) (ChainTable c) c))))"
proof (induction cs arbitrary: t)
  case Nil
  then show ?case by simp
next
  case (Cons c cs)
  then show ?case
    by (cases "GetRule (conn n) (ChainTable c) c") auto
qed

lemma nonSystemRules_loop_fail:
  "0 \<le> t \<Longrightarrow>
   (nonSystemRules_loop n tbl cs t = - 1) =
   (\<exists>c\<in>set cs. (Name tbl = Name (ChainTable c) \<or> Family tbl = Family (ChainTable c))
       \<and> isl (GetRule (conn n) (ChainTable c) c))"
proof (induction cs arbitrary: t)
  case Nil
  then show ?case by simp
next
  case (Cons c cs)
  show ?case
  proof (cases "Name tbl \<noteq> Name (ChainTable c) \<and> Family tbl \<noteq> Family (ChainTable c)")
    case True
    then show ?thesis using Cons.IH [OF Cons.prems] by auto
  next
    case False
    show ?thesis
    proof (cases "GetRule (conn n) (ChainTable c) c")
      case (Inl e)
      then show ?thesis using False by auto
    next
      case (Inr rs)
      have "0 \<le> t + int (length rs)" using Cons.prems by simp
      from Cons.IH [OF this] show ?thesis using False Inr by auto
    qed
  qed
qed

text \<open>
  Claim C2. \<open>nonSystemRules\<close> returns -1 exactly when listing the chains fails or
  listing the rules of a chain that is not skipped fails; in every other case the result
  is a count, which is never -1.
\<close>

theorem nonSystemRules_enumeration_failure:
  "(nonSystemRules n tbl = - 1) =
   (isl (ListChains (conn n)) \<or>
    (\<exists>c\<in>set (projr (ListChains (conn n))).
        (Name tbl = Name (ChainTable c) \<or> Family tbl = Family (ChainTable c))
        \<and> isl (GetRule (conn n) (ChainTable c) c)))"
  by (cases "ListChains (conn n)") (simp_all add: nonSystemRules_def nonSystemRules_loop_fail)

theorem nonSystemRules_enumeration_failure_witness:
  "isl (ListChains (conn ex_unlistable)) \<and> nonSystemRules ex_unlistable ex_filter = - 1
   \<and> \<lparr>ChainName = ''input'', ChainTable = ex_filter\<rparr> \<in> set (projr (ListChains (conn ex_unreadable)))
   \<and> isl (GetRule (conn ex_unreadable) ex_filter \<lparr>ChainName = ''input'', ChainTable = ex_filter\<rparr>)
   \<and> nonSystemRules ex_unreadable ex_filter = - 1
   \<and> nonSystemRules ex_busy ex_filter = 3"
proof -
  have l: "isl (ListChains (conn ex_unlistable))"
    by (simp add: ex_defs ListChains_def)
  have c: "\<lparr>ChainName = ''input'', ChainTable = ex_filter\<rparr> \<in> set (projr (ListChains (conn ex_unreadable)))"
    by (simp add: ex_defs ListChains_def)
  have g: "isl (GetRule (conn ex_unreadable) ex_filter \<lparr>ChainName = ''input'', ChainTable = ex_filter\<rparr>)"
    by (simp add: ex_defs GetRule_def)
  have b: "nonSystemRules ex_busy ex_filter = 3"
    by (simp add: ex_defs src_defs)
  have "nonSystemRules ex_unlistable ex_filter = - 1"
    using nonSystemRules_enumeration_failure [of ex_unlistable ex_filter] l by simp
  moreover have "nonSystemRules ex_unreadable ex_filter = - 1"
    using nonSystemRules_enumeration_failure [of ex_unreadable ex_filter] c g
    by (auto simp add: Bex_def)
  ultimately show ?thesis using l c g b by simp
qed

text \<open>
  Claim C4. When the enumeration succeeds, \<open>nonSystemRules\<close> is the number of rules
  of the chains whose table has the name or the family of the target table: a chain is
  skipped only when both differ, so a chain sharing only the name or only the family is
  counted.
\<close>

theorem nonSystemRules_counts_name_or_family:
  assumes "ListChains (conn n) = Inr chs"
    and "\<forall>c\<in>set chs. (Name tbl = Name (ChainTable c) \<or> Family tbl = Family (ChainTable c))
           \<longrightarrow> \<not> isl (GetRule (conn n) (ChainTable c) c)"
  shows "nonSystemRules n tbl =
     (\<Sum>c\<leftarrow>filter (\<lambda>c. Name tbl = Name (ChainTable c) \<or> Family tbl = Family (ChainTable c)) chs.
            int (length (projr (GetRule (conn n) (ChainTable c) c))))"
  using assms by (simp add: nonSystemRules_def nonSystemRules_loop_sum)

theorem nonSystemRules_counts_name_or_family_witness:
  "ListChains (conn ex_shared) = Inr (kchains (conn ex_shared))
   \<and> Name ex_filter = Name ex_filter_ip \<and> Family ex_filter \<noteq> Family ex_filter_ip
   \<and> Name ex_filter \<noteq> Name ex_nat \<and> Family ex_filter = Family ex_nat
   \<and> nonSystemRules ex_shared ex_filter = 3"
proof -
  have l: "ListChains (conn ex_shared) = Inr (kchains (conn ex_shared))"
    by (simp add: ex_defs ListChains_def)
  have g: "\<forall>c\<in>set (kchains (conn ex_shared)).
             (Name ex_filter = Name (ChainTable c) \<or> Family ex_filter = Family (ChainTable c))
               \<longrightarrow> \<not> isl (GetRule (conn ex_shared) (ChainTable c) c)"
    by (simp add: ex_defs GetRule_def)
  have s: "(\<Sum>c\<leftarrow>filter (\<lambda>c. Name ex_filter = Name (ChainTable c) \<or> Family ex_filter = Family (ChainTable c))
                    (kchains (conn ex_shared)).
            int (length (projr (GetRule (conn ex_shared) (ChainTable c) c)))) = 3"
    by (simp add: ex_defs GetRule_def)
  have n: "Name ex_filter = Name ex_filter_ip \<and> Family ex_filter \<noteq> Family ex_filter_ip
   \<and> Name ex_filter \<noteq> Name ex_nat \<and> Family ex_filter = Family ex_nat"
    by (simp add: ex_defs)
  have "nonSystemRules ex_shared ex_filter = 3"
    using nonSystemRules_counts_name_or_family [OF l g] s by simp
  then show ?thesis
    using l n by blast
qed

text \<open>
  Claim C3, evaluated where the code departs from it. On the shared host the table
  filter/inet holds no rule at all, and \<open>nonSystemRules\<close> returns 3, the rules of
  filter/ip and nat/inet. On the host whose only rule in filter/inet is the daemon's own,
  \<open>nonSystemRules\<close> returns 1. The count the specification describes is 0 on both.
\<close>

theorem nonSystemRules_counts_other_tables_and_own_rules:
  "nonSystemRules ex_shared ex_filter = 3
   \<and> countForeignRules_spec ex_no_own ex_shared ex_filter = 0
   \<and> nonSystemRules ex_own_host ex_filter = 1
   \<and> countForeignRules_spec ex_own ex_own_host ex_filter = 0"
  by (simp add: ex_defs src_defs countForeignRules_spec_def)

section \<open>delSystemTables\<close>

lemma body_skip:
  "nonSystemRules n tbl \<noteq> 0 \<Longrightarrow> delSystemTables_body n (k, tbl) = n"
  by (simp add: delSystemTables_body_def)

lemma body_fail:
  "nonSystemRules n tbl = 0 \<Longrightarrow> flushErr (conn n) (flushed (conn n)) \<Longrightarrow>
   delSystemTables_body n (k, tbl) =
     n\<lparr>conn := (conn n)\<lparr>messages := [], flushed := Suc (flushed (conn n))\<rparr>,
       logs := logs n @ [''error deleting system table: '' @ k]\<rparr>"
  by (simp add: delSystemTables_body_def Commit_eq Flush_def conn_DelTable_def log_Warning_def)

lemma body_ok:
  "nonSystemRules n tbl = 0 \<Longrightarrow> \<not> flushErr (conn n) (flushed (conn n)) \<Longrightarrow>
   delSystemTables_body n (k, tbl) =
     n\<lparr>conn := (apply_msg (foldl apply_msg (conn n) (messages (conn n))) (MsgDelTable tbl))
                  \<lparr>messages := [], flushed := Suc (flushed (conn n))\<rparr>,
       sysTables := sysTables_Del (sysTables n) k\<rparr>"
  by (simp add: delSystemTables_body_def Commit_eq Flush_def conn_DelTable_def
      foldl_apply_msg_messages apply_msg_messages)

lemma body_cases:
  obtains (skip) "nonSystemRules n tbl \<noteq> 0"
  | (fail) "nonSystemRules n tbl = 0" "flushErr (conn n) (flushed (conn n))"
  | (ok) "nonSystemRules n tbl = 0" "\<not> flushErr (conn n) (flushed (conn n))"
  by blast

lemma body_messages_empty:
  "messages (conn n) = [] \<Longrightarrow> messages (conn (delSystemTables_body n e)) = []"
proof (cases e)
  case (Pair k tbl)
  assume "messages (conn n) = []"
  then show ?thesis unfolding Pair
    by (cases n tbl rule: body_cases) (simp_all add: body_skip body_fail body_ok)
qed

lemma body_ktables_subset:
  "messages (conn n) = [] \<Longrightarrow>
   set (ktables (conn (delSystemTables_body n e))) \<subseteq> set (ktables (conn n))"
proof (cases e)
  case (Pair k tbl)
  assume "messages (conn n) = []"
  then show ?thesis unfolding Pair
    by (cases n tbl rule: body_cases) (auto simp add: body_skip body_fail body_ok)
qed

lemma loop_messages_empty:
  "messages (conn n) = [] \<Longrightarrow> messages (conn (foldl delSystemTables_body n es)) = []"
  by (induction es arbitrary: n) (simp_all add: body_messages_empty)

lemma loop_ktables_subset:
  "messages (conn n) = [] \<Longrightarrow>
   set (ktables (conn (foldl delSystemTables_body n es))) \<subseteq> set (ktables (conn n))"
proof (induction es arbitrary: n)
  case Nil
  then show ?case by simp
next
  case (Cons e es)
  have "set (ktables (conn (foldl delSystemTables_body (delSystemTables_body n e) es)))
          \<subseteq> set (ktables (conn (delSystemTables_body n e)))"
    by (rule Cons.IH) (simp add: body_messages_empty Cons.prems)
  also have "\<dots> \<subseteq> set (ktables (conn n))"
    by (rule body_ktables_subset) (rule Cons.prems)
  finally show ?case by simp
qed

lemma body_Get_other:
  "k' \<noteq> fst e \<Longrightarrow>
   sysTables_Get (sysTables (delSystemTables_body n e)) k' = sysTables_Get (sysTables n) k'"
proof (cases e)
  case (Pair k tbl)
  assume "k' \<noteq> fst e"
  then show ?thesis unfolding Pair
    by (cases n tbl rule: body_cases)
       (simp_all add: body_skip body_fail body_ok sysTables_Get_def sysTables_Del_def delete_conv')
qed

lemma loop_Get_other:
  "k' \<notin> fst ` set es \<Longrightarrow>
   sysTables_Get (sysTables (foldl delSystemTables_body n es)) k' = sysTables_Get (sysTables n) k'"
  by (induction es arbitrary: n) (simp_all add: body_Get_other)

lemma body_Get_None:
  "sysTables_Get (sysTables n) k' = None \<Longrightarrow>
   sysTables_Get (sysTables (delSystemTables_body n e)) k' = None"
proof (cases e)
  case (Pair k tbl)
  assume "sysTables_Get (sysTables n) k' = None"
  then show ?thesis unfolding Pair
    by (cases n tbl rule: body_cases)
       (simp_all add: body_skip body_fail body_ok sysTables_Get_def sysTables_Del_def delete_conv')
qed

lemma loop_Get_None:
  "sysTables_Get (sysTables n) k' = None \<Longrightarrow>
   sysTables_Get (sysTables (foldl delSystemTables_body n es)) k' = None"
  by (induction es arbitrary: n) (simp_all add: body_Get_None)

lemma delSystemTables_split:
  "sysTables_List (sysTables n) = pre @ e # post \<Longrightarrow>
   delSystemTables n =
     foldl delSystemTables_body (delSystemTables_body (foldl delSystemTables_body n pre) e) post"
  by (simp add: delSystemTables_def)

lemma entry_at_visit:
  assumes "distinct (map fst (sysTables n))"
    and "sysTables_List (sysTables n) = pre @ (k, tbl) # post"
  shows "sysTables_Get (sysTables (foldl delSystemTables_body n pre)) k = Some tbl"
    and "k \<notin> fst ` set post"
    and "sysTables_Get (sysTables n) k = Some tbl"
proof -
  have reg: "sysTables n = pre @ (k, tbl) # post"
    using assms(2) by (simp add: sysTables_List_def)
  have d: "distinct (map fst (pre @ (k, tbl) # post))"
    using assms(1) reg by simp
  then have npre: "k \<notin> fst ` set pre" and npost: "k \<notin> fst ` set post"
    by auto
  show "k \<notin> fst ` set post" by (rule npost)
  have "map_of pre k = None"
    using npre by (simp add: map_of_eq_None_iff)
  then have "map_of (pre @ (k, tbl) # post) k = Some tbl"
    by (simp add: map_add_def)
  then show now: "sysTables_Get (sysTables n) k = Some tbl"
    by (simp add: reg sysTables_Get_def)
  then show "sysTables_Get (sysTables (foldl delSystemTables_body n pre)) k = Some tbl"
    using loop_Get_other [OF npre] by simp
qed

lemma apply_msg_keeps_table:
  "msg \<noteq> MsgDelTable t \<Longrightarrow> t \<in> set (ktables cc) \<Longrightarrow> t \<in> set (ktables (apply_msg cc msg))"
  by (cases msg) auto

lemma apply_msg_keeps_chains:
  "msg \<noteq> MsgDelTable t \<Longrightarrow>
   filter (\<lambda>c. ChainTable c = t) (kchains (apply_msg cc msg)) = filter (\<lambda>c. ChainTable c = t) (kchains cc)"
  by (cases msg) (auto intro: filter_cong)

lemma apply_msg_keeps_rules:
  "msg \<noteq> MsgDelTable t \<Longrightarrow>
   filter (\<lambda>r. RuleTable r = t) (krules (apply_msg cc msg)) = filter (\<lambda>r. RuleTable r = t) (krules cc)"
  by (cases msg) (auto intro: filter_cong)

lemma flush_keeps_table:
  "MsgDelTable t \<notin> set ms \<Longrightarrow> t \<in> set (ktables cc) \<Longrightarrow> t \<in> set (ktables (foldl apply_msg cc ms))"
proof (induction ms arbitrary: cc)
  case Nil
  then show ?case by simp
next
  case (Cons msg ms)
  have "t \<in> set (ktables (apply_msg cc msg))"
    using Cons.prems by (intro apply_msg_keeps_table) auto
  then show ?case
    using Cons.IH [of "apply_msg cc msg"] Cons.prems by simp
qed

lemma flush_keeps_chains:
  "MsgDelTable t \<notin> set ms \<Longrightarrow>
   filter (\<lambda>c. ChainTable c = t) (kchains (foldl apply_msg cc ms)) = filter (\<lambda>c. ChainTable c = t) (kchains cc)"
proof (induction ms arbitrary: cc)
  case Nil
  then show ?case by simp
next
  case (Cons msg ms)
  have "filter (\<lambda>c. ChainTable c = t) (kchains (apply_msg cc msg))
          = filter (\<lambda>c. ChainTable c = t) (kchains cc)"
    using Cons.prems by (intro apply_msg_keeps_chains) auto
  then show ?case
    using Cons.IH [of "apply_msg cc msg"] Cons.prems by simp
qed

lemma flush_keeps_rules:
  "MsgDelTable t \<notin> set ms \<Longrightarrow>
   filter (\<lambda>r. RuleTable r = t) (krules (foldl apply_msg cc ms)) = filter (\<lambda>r. RuleTable r = t) (krules cc)"
proof (induction ms arbitrary: cc)
  case Nil
  then show ?case by simp
next
  case (Cons msg ms)
  have "filter (\<lambda>r. RuleTable r = t) (krules (apply_msg cc msg))
          = filter (\<lambda>r. RuleTable r = t) (krules cc)"
    using Cons.prems by (intro apply_msg_keeps_rules) auto
  then show ?case
    using Cons.IH [of "apply_msg cc msg"] Cons.prems by simp
qed

lemma body_no_pending_delete:
  "MsgDelTable t \<notin> set (messages (conn n)) \<Longrightarrow>
   MsgDelTable t \<notin> set (messages (conn (delSystemTables_body n e)))"
proof (cases e)
  case (Pair k tbl)
  assume "MsgDelTable t \<notin> set (messages (conn n))"
  then show ?thesis unfolding Pair
    by (cases n tbl rule: body_cases) (simp_all add: body_skip body_fail body_ok)
qed

lemma body_keeps_other_table:
  assumes "MsgDelTable t \<notin> set (messages (conn n))" and "t \<noteq> snd e"
  shows "t \<in> set (ktables (conn n)) \<Longrightarrow> t \<in> set (ktables (conn (delSystemTables_body n e)))"
    and "filter (\<lambda>c. ChainTable c = t) (kchains (conn (delSystemTables_body n e)))
           = filter (\<lambda>c. ChainTable c = t) (kchains (conn n))"
    and "filter (\<lambda>r. RuleTable r = t) (krules (conn (delSystemTables_body n e)))
           = filter (\<lambda>r. RuleTable r = t) (krules (conn n))"
proof -
  obtain k tbl where e: "e = (k, tbl)" by (cases e)
  have ne: "MsgDelTable tbl \<noteq> MsgDelTable t" using assms(2) e by simp
  show "t \<in> set (ktables (conn (delSystemTables_body n e)))" if "t \<in> set (ktables (conn n))"
  proof (cases n tbl rule: body_cases)
    case ok
    have "t \<in> set (ktables (foldl apply_msg (conn n) (messages (conn n))))"
      by (rule flush_keeps_table [OF assms(1) that])
    then have "t \<in> set (ktables (apply_msg (foldl apply_msg (conn n) (messages (conn n))) (MsgDelTable tbl)))"
      using ne by (intro apply_msg_keeps_table) auto
    then show ?thesis using ok by (simp add: e body_ok del: apply_msg.simps)
  qed (simp_all add: e body_skip body_fail that)
  show "filter (\<lambda>c. ChainTable c = t) (kchains (conn (delSystemTables_body n e)))
           = filter (\<lambda>c. ChainTable c = t) (kchains (conn n))"
  proof (cases n tbl rule: body_cases)
    case ok
    have "filter (\<lambda>c. ChainTable c = t)
            (kchains (apply_msg (foldl apply_msg (conn n) (messages (conn n))) (MsgDelTable tbl)))
          = filter (\<lambda>c. ChainTable c = t) (kchains (foldl apply_msg (conn n) (messages (conn n))))"
      using ne by (intro apply_msg_keeps_chains) auto
    then show ?thesis
      using ok flush_keeps_chains [OF assms(1), of "conn n"]
      by (simp add: e body_ok del: apply_msg.simps)
  qed (simp_all add: e body_skip body_fail)
  show "filter (\<lambda>r. RuleTable r = t) (krules (conn (delSystemTables_body n e)))
           = filter (\<lambda>r. RuleTable r = t) (krules (conn n))"
  proof (cases n tbl rule: body_cases)
    case ok
    have "filter (\<lambda>r. RuleTable r = t)
            (krules (apply_msg (foldl apply_msg (conn n) (messages (conn n))) (MsgDelTable tbl)))
          = filter (\<lambda>r. RuleTable r = t) (krules (foldl apply_msg (conn n) (messages (conn n))))"
      using ne by (intro apply_msg_keeps_rules) auto
    then show ?thesis
      using ok flush_keeps_rules [OF assms(1), of "conn n"]
      by (simp add: e body_ok del: apply_msg.simps)
  qed (simp_all add: e body_skip body_fail)
qed

lemma loop_keeps_other_table:
  assumes "MsgDelTable t \<notin> set (messages (conn n))" and "t \<notin> snd ` set es"
  shows "t \<in> set (ktables (conn n)) \<Longrightarrow> t \<in> set (ktables (conn (foldl delSystemTables_body n es)))"
    and "filter (\<lambda>c. ChainTable c = t) (kchains (conn (foldl delSystemTables_body n es)))
           = filter (\<lambda>c. ChainTable c = t) (kchains (conn n))"
    and "filter (\<lambda>r. RuleTable r = t) (krules (conn (foldl delSystemTables_body n es)))
           = filter (\<lambda>r. RuleTable r = t) (krules (conn n))"
  using assms
proof (induction es arbitrary: n)
  case Nil
  {
    case 1 then show ?case by simp
  next
    case 2 then show ?case by simp
  next
    case 3 then show ?case by simp
  }
next
  case (Cons e es)
  {
    case 1
    have p: "MsgDelTable t \<notin> set (messages (conn (delSystemTables_body n e)))"
      by (rule body_no_pending_delete) (rule 1)
    have ne: "t \<noteq> snd e" and rest: "t \<notin> snd ` set es" using 1 by auto
    show ?case
      using Cons.IH(1) [OF body_keeps_other_table(1) [OF 1(2) ne 1(1)] p rest] by simp
  next
    case 2
    have p: "MsgDelTable t \<notin> set (messages (conn (delSystemTables_body n e)))"
      by (rule body_no_pending_delete) (rule 2)
    have ne: "t \<noteq> snd e" and rest: "t \<notin> snd ` set es" using 2 by auto
    show ?case
      using Cons.IH(2) [OF p rest] body_keeps_other_table(2) [OF 2(1) ne] by simp
  next
    case 3
    have p: "MsgDelTable t \<notin> set (messages (conn (delSystemTables_body n e)))"
      by (rule body_no_pending_delete) (rule 3)
    have ne: "t \<noteq> snd e" and rest: "t \<notin> snd ` set es" using 3 by auto
    show ?case
      using Cons.IH(3) [OF p rest] body_keeps_other_table(3) [OF 3(1) ne] by simp
  }
qed

lemma deleted_table_was_visited:
  "MsgDelTable t \<notin> set (messages (conn m)) \<Longrightarrow> t \<in> set (ktables (conn m)) \<Longrightarrow>
   t \<notin> set (ktables (conn (foldl delSystemTables_body m es))) \<Longrightarrow>
   \<exists>pre k post. es = pre @ (k, t) # post
      \<and> nonSystemRules (foldl delSystemTables_body m pre) t = 0
      \<and> \<not> flushErr (conn (foldl delSystemTables_body m pre))
              (flushed (conn (foldl delSystemTables_body m pre)))"
proof (induction es arbitrary: m)
  case Nil
  then show ?case by simp
next
  case (Cons e es)
  let ?m1 = "delSystemTables_body m e"
  show ?case
  proof (cases "t \<in> set (ktables (conn ?m1))")
    case True
    have p: "MsgDelTable t \<notin> set (messages (conn ?m1))"
      by (rule body_no_pending_delete) (rule Cons.prems(1))
    have "t \<notin> set (ktables (conn (foldl delSystemTables_body ?m1 es)))"
      using Cons.prems(3) by simp
    from Cons.IH [OF p True this] obtain pre k post where
      "es = pre @ (k, t) # post"
      "nonSystemRules (foldl delSystemTables_body ?m1 pre) t = 0"
      "\<not> flushErr (conn (foldl delSystemTables_body ?m1 pre))
              (flushed (conn (foldl delSystemTables_body ?m1 pre)))"
      by blast
    then have "e # es = (e # pre) @ (k, t) # post
      \<and> nonSystemRules (foldl delSystemTables_body m (e # pre)) t = 0
      \<and> \<not> flushErr (conn (foldl delSystemTables_body m (e # pre)))
              (flushed (conn (foldl delSystemTables_body m (e # pre))))"
      by simp
    then show ?thesis by blast
  next
    case False
    obtain k tbl where e: "e = (k, tbl)" by (cases e)
    have "tbl = t"
      using body_keeps_other_table(1) [OF Cons.prems(1) _ Cons.prems(2), of e] False e by auto
    have z: "nonSystemRules m t = 0"
      using False Cons.prems(2) e \<open>tbl = t\<close>
      by (cases m t rule: body_cases) (simp_all add: body_skip)
    have ok: "\<not> flushErr (conn m) (flushed (conn m))"
      using False Cons.prems(2) e \<open>tbl = t\<close> z
      by (cases m t rule: body_cases) (simp_all add: body_fail)
    have "e # es = [] @ (k, t) # es
      \<and> nonSystemRules (foldl delSystemTables_body m []) t = 0
      \<and> \<not> flushErr (conn (foldl delSystemTables_body m []))
              (flushed (conn (foldl delSystemTables_body m [])))"
      using e \<open>tbl = t\<close> z ok by simp
    then show ?thesis by blast
  qed
qed

lemma body_log_other:
  "k \<noteq> fst e \<Longrightarrow>
   (''error deleting system table: '' @ k \<in> set (logs (delSystemTables_body n e)))
     = (''error deleting system table: '' @ k \<in> set (logs n))"
proof (cases e)
  case (Pair k' tbl)
  assume "k \<noteq> fst e"
  then show ?thesis unfolding Pair
    by (cases n tbl rule: body_cases) (auto simp add: body_skip body_fail body_ok)
qed

lemma loop_log_other:
  "k \<notin> fst ` set es \<Longrightarrow>
   (''error deleting system table: '' @ k \<in> set (logs (foldl delSystemTables_body n es)))
     = (''error deleting system table: '' @ k \<in> set (logs n))"
proof (induction es arbitrary: n)
  case Nil
  show ?case by (simp only: foldl_Nil)
next
  case (Cons e es)
  have ne: "k \<noteq> fst e" and rest: "k \<notin> fst ` set es"
    using Cons.prems by auto
  have "(''error deleting system table: '' @ k \<in> set (logs (foldl delSystemTables_body n (e # es))))
      = (''error deleting system table: '' @ k
           \<in> set (logs (foldl delSystemTables_body (delSystemTables_body n e) es)))"
    by (simp only: foldl_Cons)
  also have "\<dots> = (''error deleting system table: '' @ k \<in> set (logs (delSystemTables_body n e)))"
    by (rule Cons.IH) (rule rest)
  also have "\<dots> = (''error deleting system table: '' @ k \<in> set (logs n))"
    by (rule body_log_other) (rule ne)
  finally show ?case .
qed

text \<open>
  Claim C1. Let the loop of \<open>delSystemTables\<close> reach the entry \<open>(k, tbl)\<close> in state
  \<open>m\<close>, after the entries \<open>pre\<close>. If \<open>nonSystemRules\<close> is not 0 there (a count or
  -1), the visit changes nothing: no delete is staged and nothing is committed. If it is 0
  and the commit succeeds, the table is gone from the kernel and the entry from the
  registry, after the visit and when \<open>delSystemTables\<close> returns. A visit removes no
  table but its own: every other table of the kernel for which no delete was pending is
  still there after it. A table with a count other than 0, registered once and with no
  delete pending, is still in the kernel when \<open>delSystemTables\<close> returns. And every
  table that was in the kernel, with no delete pending, and is gone when
  \<open>delSystemTables\<close> returns, was the table of an entry visited with count 0 and a
  commit that succeeded.
\<close>

theorem delSystemTables_deletes_only_at_zero:
  assumes split: "sysTables_List (sysTables n) = pre @ (k, tbl) # post"
    and m: "m = foldl delSystemTables_body n pre"
    and m': "m' = delSystemTables_body m (k, tbl)"
  shows "delSystemTables n = foldl delSystemTables_body m' post
     \<and> (nonSystemRules m tbl \<noteq> 0 \<longrightarrow> m' = m)
     \<and> (nonSystemRules m tbl = 0 \<and> \<not> flushErr (conn m) (flushed (conn m)) \<longrightarrow>
          tbl \<notin> set (ktables (conn m')) \<and> sysTables_Get (sysTables m') k = None
          \<and> tbl \<notin> set (ktables (conn (delSystemTables n)))
          \<and> sysTables_Get (sysTables (delSystemTables n)) k = None)
     \<and> (\<forall>t. t \<noteq> tbl \<and> MsgDelTable t \<notin> set (messages (conn m)) \<and> t \<in> set (ktables (conn m))
            \<longrightarrow> t \<in> set (ktables (conn m')))
     \<and> (nonSystemRules m tbl \<noteq> 0 \<and> MsgDelTable tbl \<notin> set (messages (conn n))
          \<and> tbl \<notin> snd ` set (pre @ post) \<and> tbl \<in> set (ktables (conn n))
            \<longrightarrow> tbl \<in> set (ktables (conn (delSystemTables n))))
     \<and> (\<forall>t. MsgDelTable t \<notin> set (messages (conn n)) \<and> t \<in> set (ktables (conn n))
              \<and> t \<notin> set (ktables (conn (delSystemTables n)))
            \<longrightarrow> (\<exists>pre' k' post'. sysTables_List (sysTables n) = pre' @ (k', t) # post'
                   \<and> nonSystemRules (foldl delSystemTables_body n pre') t = 0
                   \<and> \<not> flushErr (conn (foldl delSystemTables_body n pre'))
                           (flushed (conn (foldl delSystemTables_body n pre')))))"
proof (intro conjI impI allI)
  show fin: "delSystemTables n = foldl delSystemTables_body m' post"
    using delSystemTables_split [OF split] by (simp add: m m')
  show skip: "m' = m" if "nonSystemRules m tbl \<noteq> 0"
    using that by (simp add: m' body_skip)
  {
    assume ok: "nonSystemRules m tbl = 0 \<and> \<not> flushErr (conn m) (flushed (conn m))"
    then have eq: "m' = m\<lparr>conn := (apply_msg (foldl apply_msg (conn m) (messages (conn m))) (MsgDelTable tbl))
                  \<lparr>messages := [], flushed := Suc (flushed (conn m))\<rparr>,
       sysTables := sysTables_Del (sysTables m) k\<rparr>"
      by (simp add: m' body_ok)
    show gone: "tbl \<notin> set (ktables (conn m'))"
      by (simp add: eq)
    show none: "sysTables_Get (sysTables m') k = None"
      by (simp add: eq sysTables_Get_def sysTables_Del_def delete_conv')
    have "messages (conn m') = []"
      by (simp add: eq)
    then have "set (ktables (conn (foldl delSystemTables_body m' post))) \<subseteq> set (ktables (conn m'))"
      by (rule loop_ktables_subset)
    then show "tbl \<notin> set (ktables (conn (delSystemTables n)))"
      using gone fin by auto
    show "sysTables_Get (sysTables (delSystemTables n)) k = None"
      using loop_Get_None [OF none] fin by simp
  }
  {
    fix t
    assume a: "t \<noteq> tbl \<and> MsgDelTable t \<notin> set (messages (conn m)) \<and> t \<in> set (ktables (conn m))"
    show "t \<in> set (ktables (conn m'))"
      unfolding m' using a by (intro body_keeps_other_table(1)) simp_all
  }
  {
    assume a: "nonSystemRules m tbl \<noteq> 0 \<and> MsgDelTable tbl \<notin> set (messages (conn n))
          \<and> tbl \<notin> snd ` set (pre @ post) \<and> tbl \<in> set (ktables (conn n))"
    have "delSystemTables n = foldl delSystemTables_body n (pre @ post)"
      using fin skip a by (simp add: m)
    then show "tbl \<in> set (ktables (conn (delSystemTables n)))"
      using loop_keeps_other_table(1) [of tbl n "pre @ post"] a by simp
  }
  {
    fix t
    assume a: "MsgDelTable t \<notin> set (messages (conn n)) \<and> t \<in> set (ktables (conn n))
              \<and> t \<notin> set (ktables (conn (delSystemTables n)))"
    then have "t \<notin> set (ktables (conn (foldl delSystemTables_body n (sysTables_List (sysTables n)))))"
      by (simp add: delSystemTables_def)
    with a show "\<exists>pre' k' post'. sysTables_List (sysTables n) = pre' @ (k', t) # post'
                   \<and> nonSystemRules (foldl delSystemTables_body n pre') t = 0
                   \<and> \<not> flushErr (conn (foldl delSystemTables_body n pre'))
                           (flushed (conn (foldl delSystemTables_body n pre')))"
      by (intro deleted_table_was_visited) simp_all
  }
qed

theorem delSystemTables_deletes_only_at_zero_witness:
  "nonSystemRules ex_busy ex_mangle \<noteq> 0
   \<and> delSystemTables_body ex_busy (''mangle-inet'', ex_mangle) = ex_busy
   \<and> ex_mangle \<in> set (ktables (conn (delSystemTables ex_busy)))
   \<and> nonSystemRules ex_unlistable ex_mangle = - 1
   \<and> delSystemTables_body ex_unlistable (''mangle-inet'', ex_mangle) = ex_unlistable
   \<and> nonSystemRules ex_idle ex_mangle = 0
   \<and> ex_filter \<in> set (ktables (conn (delSystemTables_body ex_idle (''mangle-inet'', ex_mangle))))
   \<and> nonSystemRules (delSystemTables_body ex_idle (''mangle-inet'', ex_mangle)) ex_filter = 0
   \<and> ex_filter \<in> set (ktables (conn ex_idle))
   \<and> ex_filter \<notin> set (ktables (conn (delSystemTables ex_idle)))
   \<and> sysTables_Get (sysTables (delSystemTables ex_idle)) ''filter-inet'' = None
   \<and> (\<exists>pre k post. sysTables_List (sysTables ex_idle) = pre @ (k, ex_filter) # post
         \<and> nonSystemRules (foldl delSystemTables_body ex_idle pre) ex_filter = 0
         \<and> \<not> flushErr (conn (foldl delSystemTables_body ex_idle pre))
                 (flushed (conn (foldl delSystemTables_body ex_idle pre))))"
proof -
  have sb: "sysTables_List (sysTables ex_busy)
              = [] @ (''mangle-inet'', ex_mangle) # [(''filter-inet'', ex_filter)]"
    by (simp add: ex_defs sysTables_List_def)
  have mb: "ex_busy = foldl delSystemTables_body ex_busy []"
    by simp
  have su: "sysTables_List (sysTables ex_unlistable)
              = [] @ (''mangle-inet'', ex_mangle) # [(''filter-inet'', ex_filter)]"
    by (simp add: ex_defs sysTables_List_def)
  have mu: "ex_unlistable = foldl delSystemTables_body ex_unlistable []"
    by simp
  have u: "nonSystemRules ex_unlistable ex_mangle = - 1"
    by (simp add: ex_defs src_defs)
  have s0: "sysTables_List (sysTables ex_idle)
              = [] @ (''mangle-inet'', ex_mangle) # [(''filter-inet'', ex_filter)]"
    by (simp add: ex_defs sysTables_List_def)
  have m0: "ex_idle = foldl delSystemTables_body ex_idle []"
    by simp
  have si: "sysTables_List (sysTables ex_idle)
              = [(''mangle-inet'', ex_mangle)] @ (''filter-inet'', ex_filter) # []"
    by (simp add: ex_defs sysTables_List_def)
  have mi: "delSystemTables_body ex_idle (''mangle-inet'', ex_mangle)
              = foldl delSystemTables_body ex_idle [(''mangle-inet'', ex_mangle)]"
    by simp
  have b: "nonSystemRules ex_busy ex_mangle \<noteq> 0"
    by (simp add: ex_defs src_defs)
  have once: "MsgDelTable ex_mangle \<notin> set (messages (conn ex_busy))
      \<and> ex_mangle \<notin> snd ` set ([] @ [(''filter-inet'', ex_filter)])
      \<and> ex_mangle \<in> set (ktables (conn ex_busy))"
    by (simp add: ex_defs)
  have z0: "nonSystemRules ex_idle ex_mangle = 0"
    by (simp add: ex_defs src_defs)
  have other: "ex_filter \<noteq> ex_mangle \<and> MsgDelTable ex_filter \<notin> set (messages (conn ex_idle))
      \<and> ex_filter \<in> set (ktables (conn ex_idle))"
    by (simp add: ex_defs)
  have z: "nonSystemRules (delSystemTables_body ex_idle (''mangle-inet'', ex_mangle)) ex_filter = 0"
    by (simp add: ex_defs src_defs)
  have ok: "\<not> flushErr (conn (delSystemTables_body ex_idle (''mangle-inet'', ex_mangle)))
                 (flushed (conn (delSystemTables_body ex_idle (''mangle-inet'', ex_mangle))))"
    by (simp add: ex_defs src_defs)
  note tb = delSystemTables_deletes_only_at_zero [OF sb mb refl]
  note tu = delSystemTables_deletes_only_at_zero [OF su mu refl]
  note t0 = delSystemTables_deletes_only_at_zero [OF s0 m0 refl]
  note ti = delSystemTables_deletes_only_at_zero [OF si mi refl]
  have c1: "delSystemTables_body ex_busy (''mangle-inet'', ex_mangle) = ex_busy"
    using tb b by blast
  have c2: "ex_mangle \<in> set (ktables (conn (delSystemTables ex_busy)))"
    using tb b once by blast
  have c3: "delSystemTables_body ex_unlistable (''mangle-inet'', ex_mangle) = ex_unlistable"
    using tu u by (metis zero_neq_neg_one)
  have c4: "ex_filter \<in> set (ktables (conn (delSystemTables_body ex_idle (''mangle-inet'', ex_mangle))))"
    using t0 other by blast
  have c5: "ex_filter \<notin> set (ktables (conn (delSystemTables ex_idle)))
      \<and> sysTables_Get (sysTables (delSystemTables ex_idle)) ''filter-inet'' = None"
    using ti z ok by blast
  have c6: "\<exists>pre k post. sysTables_List (sysTables ex_idle) = pre @ (k, ex_filter) # post
         \<and> nonSystemRules (foldl delSystemTables_body ex_idle pre) ex_filter = 0
         \<and> \<not> flushErr (conn (foldl delSystemTables_body ex_idle pre))
                 (flushed (conn (foldl delSystemTables_body ex_idle pre)))"
    using ti other c5 by blast
  show ?thesis
    using b c1 c2 u c3 z0 c4 z other c5 c6 by blast
qed

text \<open>
  Claim C6. Let the loop reach the entry \<open>(k, tbl)\<close> of a registry in state \<open>m\<close>,
  with \<open>nonSystemRules\<close> 0. If the commit fails, the warning is logged, the registry and
  the tables of the kernel are as before the visit, and the entry is still registered
  when \<open>delSystemTables\<close> returns. If the commit succeeds, nothing is logged and the
  entry is removed.
\<close>

theorem delSystemTables_commit_failure_keeps_entry:
  assumes dist: "distinct (map fst (sysTables n))"
    and split: "sysTables_List (sysTables n) = pre @ (k, tbl) # post"
    and m: "m = foldl delSystemTables_body n pre"
    and m': "m' = delSystemTables_body m (k, tbl)"
    and zero: "nonSystemRules m tbl = 0"
  shows "(flushErr (conn m) (flushed (conn m)) \<longrightarrow>
            logs m' = logs m @ [''error deleting system table: '' @ k]
            \<and> sysTables m' = sysTables m
            \<and> ktables (conn m') = ktables (conn m)
            \<and> sysTables_Get (sysTables (delSystemTables n)) k = Some tbl)
      \<and> (\<not> flushErr (conn m) (flushed (conn m)) \<longrightarrow>
            logs m' = logs m
            \<and> sysTables m' = sysTables_Del (sysTables m) k
            \<and> sysTables_Get (sysTables (delSystemTables n)) k = None)"
proof (intro conjI impI)
  have fin: "delSystemTables n = foldl delSystemTables_body m' post"
    using delSystemTables_split [OF split] by (simp add: m m')
  have at: "sysTables_Get (sysTables m) k = Some tbl"
    using entry_at_visit(1) [OF dist split] by (simp add: m)
  have npost: "k \<notin> fst ` set post"
    by (rule entry_at_visit(2) [OF dist split])
  {
    assume f: "flushErr (conn m) (flushed (conn m))"
    have eq: "m' = m\<lparr>conn := (conn m)\<lparr>messages := [], flushed := Suc (flushed (conn m))\<rparr>,
       logs := logs m @ [''error deleting system table: '' @ k]\<rparr>"
      using zero f by (simp add: m' body_fail)
    show "logs m' = logs m @ [''error deleting system table: '' @ k]" by (simp add: eq)
    show "sysTables m' = sysTables m" by (simp add: eq)
    show "ktables (conn m') = ktables (conn m)" by (simp add: eq)
    have "sysTables_Get (sysTables m') k = Some tbl" using at by (simp add: eq)
    then show "sysTables_Get (sysTables (delSystemTables n)) k = Some tbl"
      using loop_Get_other [OF npost, of m'] fin by simp
  }
  {
    assume s: "\<not> flushErr (conn m) (flushed (conn m))"
    have eq: "m' = m\<lparr>conn := (apply_msg (foldl apply_msg (conn m) (messages (conn m))) (MsgDelTable tbl))
                  \<lparr>messages := [], flushed := Suc (flushed (conn m))\<rparr>,
       sysTables := sysTables_Del (sysTables m) k\<rparr>"
      using zero s by (simp add: m' body_ok)
    show "logs m' = logs m" by (simp add: eq)
    show "sysTables m' = sysTables_Del (sysTables m) k" by (simp add: eq)
    have "sysTables_Get (sysTables m') k = None"
      by (simp add: eq sysTables_Get_def sysTables_Del_def delete_conv')
    then show "sysTables_Get (sysTables (delSystemTables n)) k = None"
      using loop_Get_None [of m' k post] fin by simp
  }
qed

theorem delSystemTables_commit_failure_keeps_entry_witness:
  "nonSystemRules ex_stuck ex_mangle = 0
   \<and> flushErr (conn ex_stuck) (flushed (conn ex_stuck))
   \<and> logs (delSystemTables_body ex_stuck (''mangle-inet'', ex_mangle))
        = logs ex_stuck @ [''error deleting system table: mangle-inet'']
   \<and> sysTables_Get (sysTables (delSystemTables ex_stuck)) ''mangle-inet'' = Some ex_mangle
   \<and> nonSystemRules ex_idle ex_mangle = 0
   \<and> \<not> flushErr (conn ex_idle) (flushed (conn ex_idle))
   \<and> sysTables_Get (sysTables (delSystemTables ex_idle)) ''mangle-inet'' = None"
proof -
  have ds: "distinct (map fst (sysTables ex_stuck))"
    by (simp add: ex_defs)
  have ss: "sysTables_List (sysTables ex_stuck)
              = [] @ (''mangle-inet'', ex_mangle) # [(''filter-inet'', ex_filter)]"
    by (simp add: ex_defs sysTables_List_def)
  have ms: "ex_stuck = foldl delSystemTables_body ex_stuck []"
    by simp
  have zs: "nonSystemRules ex_stuck ex_mangle = 0"
    by (simp add: ex_defs src_defs)
  have fs: "flushErr (conn ex_stuck) (flushed (conn ex_stuck))"
    by (simp add: ex_defs)
  have di: "distinct (map fst (sysTables ex_idle))"
    by (simp add: ex_defs)
  have si: "sysTables_List (sysTables ex_idle)
              = [] @ (''mangle-inet'', ex_mangle) # [(''filter-inet'', ex_filter)]"
    by (simp add: ex_defs sysTables_List_def)
  have mi: "ex_idle = foldl delSystemTables_body ex_idle []"
    by simp
  have zi: "nonSystemRules ex_idle ex_mangle = 0"
    by (simp add: ex_defs src_defs)
  have oi: "\<not> flushErr (conn ex_idle) (flushed (conn ex_idle))"
    by (simp add: ex_defs)
  show ?thesis
    using delSystemTables_commit_failure_keeps_entry [OF ds ss ms refl zs]
      delSystemTables_commit_failure_keeps_entry [OF di si mi refl zi] zs fs zi oi
    by simp
qed

text \<open>
  Claim C7, as amended. Let the loop reach the entry of (name, family) in state \<open>m\<close>,
  with \<open>nonSystemRules\<close> not 0. The visit changes nothing: the table, the registry and
  the log are as before. \<open>getTable\<close> for (name, family) returns the same entry before
  \<open>delSystemTables\<close> and after it, and \<open>delSystemTables\<close> logs no warning for its
  key. If no delete of the table was pending when \<open>delSystemTables\<close> began and no other
  entry holds the table, then the table, its chains and its rules are in the kernel when
  \<open>delSystemTables\<close> returns as they were when it began.
\<close>

theorem delSystemTables_keeps_busy_table:
  assumes dist: "distinct (map fst (sysTables n))"
    and split: "sysTables_List (sysTables n) = pre @ (getTableKey name family, tbl) # post"
    and m: "m = foldl delSystemTables_body n pre"
    and busy: "nonSystemRules m tbl \<noteq> 0"
  shows "delSystemTables_body m (getTableKey name family, tbl) = m
      \<and> delSystemTables n = foldl delSystemTables_body m post
      \<and> getTable n name family = Some tbl
      \<and> getTable (delSystemTables n) name family = Some tbl
      \<and> (''error deleting system table: '' @ getTableKey name family \<in> set (logs (delSystemTables n))
           \<longrightarrow> ''error deleting system table: '' @ getTableKey name family \<in> set (logs n))
      \<and> (MsgDelTable tbl \<notin> set (messages (conn n)) \<and> tbl \<notin> snd ` set (pre @ post) \<longrightarrow>
           (tbl \<in> set (ktables (conn n)) \<longrightarrow> tbl \<in> set (ktables (conn (delSystemTables n))))
           \<and> filter (\<lambda>c. ChainTable c = tbl) (kchains (conn (delSystemTables n)))
                = filter (\<lambda>c. ChainTable c = tbl) (kchains (conn n))
           \<and> filter (\<lambda>r. RuleTable r = tbl) (krules (conn (delSystemTables n)))
                = filter (\<lambda>r. RuleTable r = tbl) (krules (conn n)))"
proof (intro conjI impI)
  show step: "delSystemTables_body m (getTableKey name family, tbl) = m"
    using busy by (simp add: body_skip)
  show fin: "delSystemTables n = foldl delSystemTables_body m post"
    using delSystemTables_split [OF split] step by (simp add: m)
  have whole: "delSystemTables n = foldl delSystemTables_body n (pre @ post)"
    using fin by (simp add: m)
  have at: "sysTables_Get (sysTables m) (getTableKey name family) = Some tbl"
    using entry_at_visit(1) [OF dist split] by (simp add: m)
  have npost: "getTableKey name family \<notin> fst ` set post"
    by (rule entry_at_visit(2) [OF dist split])
  have "sysTables n = pre @ (getTableKey name family, tbl) # post"
    using split by (simp add: sysTables_List_def)
  then have nkeys: "getTableKey name family \<notin> fst ` set (pre @ post)"
    using dist by auto
  show "getTable n name family = Some tbl"
    using entry_at_visit(3) [OF dist split] by (simp add: getTable_def)
  show "getTable (delSystemTables n) name family = Some tbl"
    using loop_Get_other [OF npost, of m] at fin by (simp add: getTable_def)
  show "''error deleting system table: '' @ getTableKey name family \<in> set (logs n)"
    if "''error deleting system table: '' @ getTableKey name family \<in> set (logs (delSystemTables n))"
    using that loop_log_other [OF nkeys, of n] whole by simp
  assume a: "MsgDelTable tbl \<notin> set (messages (conn n)) \<and> tbl \<notin> snd ` set (pre @ post)"
  then have p: "MsgDelTable tbl \<notin> set (messages (conn n))" and o: "tbl \<notin> snd ` set (pre @ post)"
    by simp_all
  show "tbl \<in> set (ktables (conn (delSystemTables n)))" if "tbl \<in> set (ktables (conn n))"
    using loop_keeps_other_table(1) [OF p o that] whole by simp
  show "filter (\<lambda>c. ChainTable c = tbl) (kchains (conn (delSystemTables n)))
                = filter (\<lambda>c. ChainTable c = tbl) (kchains (conn n))"
    using loop_keeps_other_table(2) [OF p o] whole by simp
  show "filter (\<lambda>r. RuleTable r = tbl) (krules (conn (delSystemTables n)))
                = filter (\<lambda>r. RuleTable r = tbl) (krules (conn n))"
    using loop_keeps_other_table(3) [OF p o] whole by simp
qed

theorem delSystemTables_keeps_busy_table_witness:
  "distinct (map fst (sysTables ex_busy))
   \<and> nonSystemRules (delSystemTables_body ex_busy (''mangle-inet'', ex_mangle)) ex_filter \<noteq> 0
   \<and> getTable ex_busy ''filter'' ''inet'' = Some ex_filter
   \<and> getTable (delSystemTables ex_busy) ''filter'' ''inet'' = Some ex_filter
   \<and> MsgDelTable ex_filter \<notin> set (messages (conn ex_busy))
   \<and> ex_filter \<notin> snd ` set ([(''mangle-inet'', ex_mangle)] @ [])
   \<and> ex_filter \<in> set (ktables (conn ex_busy))
   \<and> ex_filter \<in> set (ktables (conn (delSystemTables ex_busy)))
   \<and> filter (\<lambda>r. RuleTable r = ex_filter) (krules (conn (delSystemTables ex_busy))) = ex_three_rules
   \<and> ''error deleting system table: '' @ getTableKey ''filter'' ''inet''
        \<notin> set (logs (delSystemTables ex_busy))"
proof -
  have d: "distinct (map fst (sysTables ex_busy))"
    by (simp add: ex_defs)
  have s: "sysTables_List (sysTables ex_busy)
              = [(''mangle-inet'', ex_mangle)] @ (getTableKey ''filter'' ''inet'', ex_filter) # []"
    by (simp add: ex_defs sysTables_List_def getTableKey_def)
  have m: "delSystemTables_body ex_busy (''mangle-inet'', ex_mangle)
             = foldl delSystemTables_body ex_busy [(''mangle-inet'', ex_mangle)]"
    by simp
  have b: "nonSystemRules (delSystemTables_body ex_busy (''mangle-inet'', ex_mangle)) ex_filter \<noteq> 0"
    by (simp add: ex_defs src_defs)
  have p: "MsgDelTable ex_filter \<notin> set (messages (conn ex_busy))
      \<and> ex_filter \<notin> snd ` set ([(''mangle-inet'', ex_mangle)] @ [])"
    by (simp add: ex_defs)
  have k: "ex_filter \<in> set (ktables (conn ex_busy))"
    by (simp add: ex_defs)
  have r: "filter (\<lambda>r. RuleTable r = ex_filter) (krules (conn ex_busy)) = ex_three_rules"
    by (simp add: ex_defs)
  have l: "''error deleting system table: '' @ getTableKey ''filter'' ''inet'' \<notin> set (logs ex_busy)"
    by (simp add: ex_defs)
  note t = delSystemTables_keeps_busy_table [OF d s m b]
  have c1: "getTable ex_busy ''filter'' ''inet'' = Some ex_filter
      \<and> getTable (delSystemTables ex_busy) ''filter'' ''inet'' = Some ex_filter"
    using t by blast
  have c2: "ex_filter \<in> set (ktables (conn (delSystemTables ex_busy)))"
    using t p k by blast
  have "filter (\<lambda>r. RuleTable r = ex_filter) (krules (conn (delSystemTables ex_busy)))
      = filter (\<lambda>r. RuleTable r = ex_filter) (krules (conn ex_busy))"
    using t p by blast
  then have c3: "filter (\<lambda>r. RuleTable r = ex_filter) (krules (conn (delSystemTables ex_busy)))
      = ex_three_rules"
    using r by (rule trans)
  have c4: "''error deleting system table: '' @ getTableKey ''filter'' ''inet''
        \<notin> set (logs (delSystemTables ex_busy))"
    using t l by blast
  show ?thesis
    using d b c1 p k c2 c3 c4 by blast
qed

text \<open>
  Claim C7 as stated fails: on the host with three rules in the filter table,
  \<open>nonSystemRules\<close> is 3 for the registered table filter/inet, and
  \<open>delSystemTables\<close> returns the state it was given, with an empty log: no warning
  is logged.
\<close>

theorem delSystemTables_keeps_busy_table_counterexample:
  "getTable ex_busy ''filter'' ''inet'' = Some ex_filter
   \<and> nonSystemRules ex_busy ex_filter = 3
   \<and> delSystemTables ex_busy = ex_busy
   \<and> logs (delSystemTables ex_busy) = []"
  by (simp add: ex_defs src_defs)

end
